theory Spec2Isabelle
  imports Complex_Main
begin

section \<open>Numbers, constants and errors\<close>

text \<open>
  The Python sources compute with floats. They are modelled here as the reals:
  every arithmetic operation and comparison is the exact one, rounding is not
  modelled. What is stated below about the accelerometer is therefore stated on the
  filtered values and the diffs that the loops compute, whatever they are, and not on
  what the filter makes of given raw samples. Python's unbounded integers are \<open>int\<close>.

  The constants are those of \<^verbatim>\<open>utils/constants.py\<close>.
\<close>

definition ACCEL_EMA_ALPHA :: real where
  "ACCEL_EMA_ALPHA = 0.3"

definition MOTION_THRESHOLD :: real where
  "MOTION_THRESHOLD = 0.30"

definition TILT_THRESHOLD :: real where
  "TILT_THRESHOLD = 1.2"

definition DOUBLE_TAP_WINDOW :: real where
  "DOUBLE_TAP_WINDOW = 0.4"

text \<open>
  The exceptions that the modelled code can raise: a failed bus read of the
  accelerometer (\<open>OSError\<close>) and the list access of \<open>navigate_choice\<close>.
\<close>

datatype error = OSError | IndexError

type_synonym vec3 = "real \<times> real \<times> real"

section \<open>\<^verbatim>\<open>utils/filters.py\<close>\<close>

text \<open>
  \<^verbatim>\<open>
  def ema_filter(raw, filtered, alpha=ACCEL_EMA_ALPHA):
      return alpha * raw + (1 - alpha) * filtered
  \<close>
\<close>

definition ema_filter :: "real \<Rightarrow> real \<Rightarrow> real \<Rightarrow> real" where
  "ema_filter raw filtered alpha = alpha * raw + (1 - alpha) * filtered"

section \<open>\<^verbatim>\<open>input_manager.py\<close>: the state and one tick\<close>

text \<open>
  The fields of \<open>InputManager\<close> that the detectors read or write.
\<close>

record input_manager =
  x_filtered :: real
  y_filtered :: real
  z_filtered :: real
  baseline_x :: real
  baseline_y :: real
  baseline_z :: real
  last_tap_time :: "real option"
  directions_detected :: "string set"

text \<open>
  A tick is what the devices and the clock give during one pass through a polling
  loop: the reading of \<^verbatim>\<open>accelerometer.acceleration\<close> inside \<open>update\<close> (\<open>None\<close>
  when the read raises), the outputs of the three debouncers after their update
  (\<open>fell\<close> edges, and the levels \<open>value\<close>, which are \<open>True\<close> for a released button
  since the inputs are pulled up), the tap event of the accelerometer, and the values
  of \<^verbatim>\<open>time.monotonic()\<close> at the places where the loop reads the clock: \<open>t_now\<close> at
  the top of the pass (the loop condition of \<open>both_buttons_held\<close>, the \<open>now\<close> of the
  click and tap detectors), \<open>t_left\<close>, \<open>t_right\<close> and \<open>t_countdown\<close> at the three
  countdown computations of \<open>navigate_choice\<close>, and \<open>t_timeout\<close> at the timeout check
  that ends the pass.
\<close>

record tick =
  acceleration :: "vec3 option"
  left_fell :: bool
  left_value :: bool
  right_fell :: bool
  right_value :: bool
  encoder_fell :: bool
  tap :: bool
  t_now :: real
  t_left :: real
  t_right :: real
  t_countdown :: real
  t_timeout :: real

text \<open>
  \<^verbatim>\<open>
  def update(self):
      self.encoder.update()
      self.encoder_button.update()
      self.left_button.update()
      self.right_button.update()
      x_raw, y_raw, z_raw = self.accelerometer.acceleration
      self.x_filtered = AccelerometerFilter.ema_filter(x_raw, self.x_filtered, ACCEL_EMA_ALPHA)
      self.y_filtered = AccelerometerFilter.ema_filter(y_raw, self.y_filtered, ACCEL_EMA_ALPHA)
      self.z_filtered = AccelerometerFilter.ema_filter(z_raw, self.z_filtered, ACCEL_EMA_ALPHA)
  \<close>
  There is no \<^verbatim>\<open>try\<close> around the read: when it raises, \<open>update\<close> raises.
\<close>

definition update :: "input_manager \<Rightarrow> tick \<Rightarrow> error + input_manager" where
  "update self tk =
     (case acceleration tk of
        None \<Rightarrow> Inl OSError
      | Some (x_raw, y_raw, z_raw) \<Rightarrow>
          Inr (self\<lparr>x_filtered := ema_filter x_raw (x_filtered self) ACCEL_EMA_ALPHA,
                    y_filtered := ema_filter y_raw (y_filtered self) ACCEL_EMA_ALPHA,
                    z_filtered := ema_filter z_raw (z_filtered self) ACCEL_EMA_ALPHA\<rparr>))"

subsection \<open>Polling loops\<close>

text \<open>
  Every detector is a loop that calls \<open>update\<close>, tests its condition and sleeps. One
  pass through the body either returns a value (\<open>Done\<close>), raises (\<open>Fail\<close>) or goes on
  with new local state (\<open>Continue\<close>). The loop runs on the ticks it is given; when
  they are used up and the loop has not returned, the outcome is \<open>Running\<close>.
\<close>

datatype ('a, 's) step = Done 'a | Fail error | Continue 's

datatype 'a outcome = Return 'a | Raise error | Running

fun run_loop :: "('s \<Rightarrow> tick \<Rightarrow> ('a, 's) step) \<Rightarrow> 's \<Rightarrow> tick list \<Rightarrow> 'a outcome" where
  "run_loop body s [] = Running"
| "run_loop body s (tk # tks) =
     (case body s tk of
        Done r \<Rightarrow> Return r
      | Fail e \<Rightarrow> Raise e
      | Continue s' \<Rightarrow> run_loop body s' tks)"

text \<open>
  The local state with which the loop has gone through all of the given ticks, when
  none of them made it return or raise.
\<close>

fun loop_state :: "('s \<Rightarrow> tick \<Rightarrow> ('a, 's) step) \<Rightarrow> 's \<Rightarrow> tick list \<Rightarrow> 's option" where
  "loop_state body s [] = Some s"
| "loop_state body s (tk # tks) =
     (case body s tk of
        Done r \<Rightarrow> None
      | Fail e \<Rightarrow> None
      | Continue s' \<Rightarrow> loop_state body s' tks)"

text \<open>
  The timeout check \<^verbatim>\<open>if timeout_s and (time.monotonic() - start_time) > timeout_s\<close>:
  \<open>None\<close> and \<open>0\<close> are falsy, so the comparison is made for a non-zero timeout only.
\<close>

definition timed_out :: "real option \<Rightarrow> real \<Rightarrow> real \<Rightarrow> bool" where
  "timed_out timeout_s start_time t =
     (case timeout_s of None \<Rightarrow> False | Some d \<Rightarrow> d \<noteq> 0 \<and> t - start_time > d)"

text \<open>
  \<^verbatim>\<open>str.lower\<close> on the ASCII letters, which is all that the axis names need: a letter
  from \<open>A\<close> (65) to \<open>Z\<close> (90) gets the bit of value 32 set.
\<close>

definition lower_char :: "char \<Rightarrow> char" where
  "lower_char c =
     (case c of Char b0 b1 b2 b3 b4 b5 b6 b7 \<Rightarrow>
        if 65 \<le> (of_char c :: nat) \<and> (of_char c :: nat) \<le> 90
        then Char b0 b1 b2 b3 b4 True b6 b7
        else c)"

definition lower :: "string \<Rightarrow> string" where
  "lower s = map lower_char s"

subsection \<open>\<open>both_buttons_held\<close>\<close>

text \<open>
  \<^verbatim>\<open>
  def both_buttons_held(self, duration_s):
      start_time = time.monotonic()
      while (time.monotonic() - start_time) < duration_s:
          self.update()
          if self.left_button.value or self.right_button.value:
              return False
          time.sleep(0.01)
      return True
  \<close>
\<close>

definition both_buttons_held_tick ::
  "real \<Rightarrow> real \<Rightarrow> input_manager \<Rightarrow> tick \<Rightarrow> (bool, input_manager) step" where
  "both_buttons_held_tick duration_s start_time self tk =
     (if t_now tk - start_time < duration_s then
        (case update self tk of
           Inl e \<Rightarrow> Fail e
         | Inr self' \<Rightarrow>
             if left_value tk \<or> right_value tk then Done False else Continue self')
      else Done True)"

definition both_buttons_held ::
  "real \<Rightarrow> real \<Rightarrow> input_manager \<Rightarrow> tick list \<Rightarrow> bool outcome" where
  "both_buttons_held duration_s start_time self ticks =
     run_loop (both_buttons_held_tick duration_s start_time) self ticks"

subsection \<open>\<open>detect_movement\<close>\<close>

text \<open>
  \<^verbatim>\<open>
  if 'x' in required:
      if x_diff > MOTION_THRESHOLD:
          confirm_count['x'] += 1
          if confirm_count['x'] >= CONFIRM_THRESHOLD and x_diff > (MOTION_THRESHOLD * 1.2) and 'x' not in detected:
              detected.add('x')
      else:
          confirm_count['x'] = 0
  \<close>
  The source has this block three times, for \<open>'x'\<close>, \<open>'y'\<close> and \<open>'z'\<close>. The dictionary
  \<open>confirm_count\<close> is a function from the axis name; only its entries at the three
  names are ever read or written.
\<close>

definition CONFIRM_THRESHOLD :: int where
  "CONFIRM_THRESHOLD = 5"

definition confirm_axis ::
  "string set \<Rightarrow> string \<Rightarrow> real \<Rightarrow> (string \<Rightarrow> int) \<times> string set \<Rightarrow> (string \<Rightarrow> int) \<times> string set" where
  "confirm_axis required a diff st =
     (case st of (confirm_count, detected) \<Rightarrow>
        if a \<in> required then
          if diff > MOTION_THRESHOLD then
            let confirm_count' = confirm_count(a := confirm_count a + 1) in
              if confirm_count' a \<ge> CONFIRM_THRESHOLD \<and> diff > MOTION_THRESHOLD * 1.2 \<and> a \<notin> detected
              then (confirm_count', insert a detected)
              else (confirm_count', detected)
          else (confirm_count(a := 0), detected)
        else (confirm_count, detected))"

text \<open>The three blocks in the order of the source, on the diffs of one tick.\<close>

definition confirm_axes ::
  "string set \<Rightarrow> vec3 \<Rightarrow> (string \<Rightarrow> int) \<times> string set \<Rightarrow> (string \<Rightarrow> int) \<times> string set" where
  "confirm_axes required dv st =
     (case dv of (x_diff, y_diff, z_diff) \<Rightarrow>
        confirm_axis required ''z'' z_diff
          (confirm_axis required ''y'' y_diff
            (confirm_axis required ''x'' x_diff st)))"

text \<open>
  \<^verbatim>\<open>
  x_diff = abs(self.x_filtered - self.baseline_x)
  y_diff = abs(self.y_filtered - self.baseline_y)
  z_diff = abs(self.z_filtered - self.baseline_z)
  \<close>
\<close>

definition axis_diffs :: "input_manager \<Rightarrow> vec3" where
  "axis_diffs self =
     (\<bar>x_filtered self - baseline_x self\<bar>,
      \<bar>y_filtered self - baseline_y self\<bar>,
      \<bar>z_filtered self - baseline_z self\<bar>)"

text \<open>
  One pass through the \<^verbatim>\<open>while True\<close> of \<open>detect_movement\<close>. \<open>required\<close> is the set
  built before the loop, \<open>None\<close> when \<^verbatim>\<open>require_axes\<close> is falsy. The calls of
  \<^verbatim>\<open>display.show_text\<close> and of \<^verbatim>\<open>hint_callback\<close> only write to the display and are
  left out.
  \<^verbatim>\<open>
  while True:
      self.update()
      ...
      if required is not None:
          ...
          if detected >= required:
              return True
      else:
          if x_diff > MOTION_THRESHOLD or y_diff > MOTION_THRESHOLD or z_diff > MOTION_THRESHOLD:
              return True
      ...
      if timeout_s and (time.monotonic() - start_time) > timeout_s:
          return False
      time.sleep(0.02)
  \<close>
\<close>

type_synonym movement_state = "input_manager \<times> (string \<Rightarrow> int) \<times> string set"

definition detect_movement_tick ::
  "real option \<Rightarrow> string set option \<Rightarrow> real \<Rightarrow> movement_state \<Rightarrow> tick \<Rightarrow> (bool, movement_state) step" where
  "detect_movement_tick timeout_s required start_time st tk =
     (case st of (self, counters) \<Rightarrow>
        (case update self tk of
           Inl e \<Rightarrow> Fail e
         | Inr self' \<Rightarrow>
             (case required of
                Some req \<Rightarrow>
                  let counters' = confirm_axes req (axis_diffs self') counters in
                    if req \<subseteq> snd counters' then Done True
                    else if timed_out timeout_s start_time (t_timeout tk) then Done False
                    else Continue (self', counters')
              | None \<Rightarrow>
                  (case axis_diffs self' of (x_diff, y_diff, z_diff) \<Rightarrow>
                     if x_diff > MOTION_THRESHOLD \<or> y_diff > MOTION_THRESHOLD \<or> z_diff > MOTION_THRESHOLD
                     then Done True
                     else if timed_out timeout_s start_time (t_timeout tk) then Done False
                     else Continue (self', counters)))))"

text \<open>
  \<^verbatim>\<open>
  required = None
  detected = set()
  if require_axes:
      required = set(a.lower() for a in require_axes)
  confirm_count = {'x': 0, 'y': 0, 'z': 0}
  \<close>
  \<open>start_time\<close> is the value of the clock read at the start of the call.
\<close>

definition required_axes :: "string list option \<Rightarrow> string set option" where
  "required_axes require_axes =
     (case require_axes of
        None \<Rightarrow> None
      | Some axes \<Rightarrow> if axes = [] then None else Some (set (map lower axes)))"

definition detect_movement ::
  "real option \<Rightarrow> string list option \<Rightarrow> real \<Rightarrow> input_manager \<Rightarrow> tick list \<Rightarrow> bool outcome" where
  "detect_movement timeout_s require_axes start_time self ticks =
     run_loop (detect_movement_tick timeout_s (required_axes require_axes) start_time)
       (self, (\<lambda>_. 0), {}) ticks"

subsection \<open>\<open>detect_tilt_forward\<close>\<close>

text \<open>
  \<^verbatim>\<open>
  while True:
      self.update()
      if self.y_filtered > TILT_THRESHOLD:
          return True
      ...                       # countdown on the display
      if timeout_s and (time.monotonic() - start_time) > timeout_s:
          return False
      time.sleep(0.02)
  \<close>
\<close>

definition detect_tilt_forward_tick ::
  "real option \<Rightarrow> real \<Rightarrow> input_manager \<Rightarrow> tick \<Rightarrow> (bool, input_manager) step" where
  "detect_tilt_forward_tick timeout_s start_time self tk =
     (case update self tk of
        Inl e \<Rightarrow> Fail e
      | Inr self' \<Rightarrow>
          if y_filtered self' > TILT_THRESHOLD then Done True
          else if timed_out timeout_s start_time (t_timeout tk) then Done False
          else Continue self')"

definition detect_tilt_forward ::
  "real option \<Rightarrow> real \<Rightarrow> input_manager \<Rightarrow> tick list \<Rightarrow> bool outcome" where
  "detect_tilt_forward timeout_s start_time self ticks =
     run_loop (detect_tilt_forward_tick timeout_s start_time) self ticks"

subsection \<open>\<open>detect_all_six_directions\<close>\<close>

text \<open>
  \<^verbatim>\<open>
  if 'x' in axes_set:
      if self.x_filtered > TILT_THRESHOLD:
          self.directions_detected.add("+X")
      if self.x_filtered < -TILT_THRESHOLD:
          self.directions_detected.add("-X")
  if 'y' in axes_set:
      if self.y_filtered > TILT_THRESHOLD:
          self.directions_detected.add("+Y")
      if self.y_filtered < -TILT_THRESHOLD:
          self.directions_detected.add("-Y")
  if 'z' in axes_set:
      if self.z_filtered - self.baseline_z > TILT_THRESHOLD:
          self.directions_detected.add("+Z")
      if self.z_filtered - self.baseline_z < -TILT_THRESHOLD:
          self.directions_detected.add("-Z")
  \<close>
\<close>

definition add_direction :: "bool \<Rightarrow> string \<Rightarrow> input_manager \<Rightarrow> input_manager" where
  "add_direction crossed token self =
     (if crossed then self\<lparr>directions_detected := insert token (directions_detected self)\<rparr>
      else self)"

definition check_directions :: "string set \<Rightarrow> input_manager \<Rightarrow> input_manager" where
  "check_directions axes_set self =
     (let self1 =
            (if ''x'' \<in> axes_set then
               add_direction (x_filtered self < - TILT_THRESHOLD) ''-X''
                 (add_direction (x_filtered self > TILT_THRESHOLD) ''+X'' self)
             else self);
          self2 =
            (if ''y'' \<in> axes_set then
               add_direction (y_filtered self1 < - TILT_THRESHOLD) ''-Y''
                 (add_direction (y_filtered self1 > TILT_THRESHOLD) ''+Y'' self1)
             else self1)
      in
        if ''z'' \<in> axes_set then
          add_direction (z_filtered self2 - baseline_z self2 < - TILT_THRESHOLD) ''-Z''
            (add_direction (z_filtered self2 - baseline_z self2 > TILT_THRESHOLD) ''+Z'' self2)
        else self2)"

text \<open>
  \<^verbatim>\<open>
  while True:
      self.update()
      ...                       # the checks above, then hint_callback
      if len(self.directions_detected) >= required_count:
          return True
      if timeout_s and (time.monotonic() - start_time) > timeout_s:
          return False
      time.sleep(0.02)
  \<close>
\<close>

definition detect_all_six_directions_tick ::
  "real option \<Rightarrow> string set \<Rightarrow> nat \<Rightarrow> real \<Rightarrow> input_manager \<Rightarrow> tick \<Rightarrow> (bool, input_manager) step" where
  "detect_all_six_directions_tick timeout_s axes_set required_count start_time self tk =
     (case update self tk of
        Inl e \<Rightarrow> Fail e
      | Inr self' \<Rightarrow>
          let self'' = check_directions axes_set self' in
            if card (directions_detected self'') \<ge> required_count then Done True
            else if timed_out timeout_s start_time (t_timeout tk) then Done False
            else Continue self'')"

text \<open>
  \<^verbatim>\<open>
  self.directions_detected = set()
  start_time = time.monotonic()
  axes_set = set(a.lower() for a in axes)
  required_count = len(axes_set) * 2
  \<close>
\<close>

definition detect_all_six_directions ::
  "real option \<Rightarrow> string list \<Rightarrow> real \<Rightarrow> input_manager \<Rightarrow> tick list \<Rightarrow> bool outcome" where
  "detect_all_six_directions timeout_s axes start_time self ticks =
     (let axes_set = set (map lower axes);
          required_count = card axes_set * 2
      in run_loop (detect_all_six_directions_tick timeout_s axes_set required_count start_time)
           (self\<lparr>directions_detected := {}\<rparr>) ticks)"

subsection \<open>\<open>detect_double_tap\<close>\<close>

text \<open>
  \<^verbatim>\<open>
  self.last_tap_time = None
  start_time = time.monotonic()
  while True:
      self.update()
      if self.accelerometer.events["tap"]:
          now = time.monotonic()
          if (self.last_tap_time is not None and
              (now - self.last_tap_time) <= DOUBLE_TAP_WINDOW):
              self.last_tap_time = None
              return True
          else:
              self.last_tap_time = now
      ...
      if timeout_s and (time.monotonic() - start_time) > timeout_s:
          return False
      time.sleep(0.02)
  \<close>
\<close>

definition second_within :: "real \<Rightarrow> real option \<Rightarrow> real \<Rightarrow> bool" where
  "second_within window previous now = (case previous of None \<Rightarrow> False | Some t \<Rightarrow> now - t \<le> window)"

definition detect_double_tap_tick ::
  "real option \<Rightarrow> real \<Rightarrow> input_manager \<Rightarrow> tick \<Rightarrow> (bool, input_manager) step" where
  "detect_double_tap_tick timeout_s start_time self tk =
     (case update self tk of
        Inl e \<Rightarrow> Fail e
      | Inr self' \<Rightarrow>
          if tap tk \<and> second_within DOUBLE_TAP_WINDOW (last_tap_time self') (t_now tk) then Done True
          else
            let self'' = (if tap tk then self'\<lparr>last_tap_time := Some (t_now tk)\<rparr> else self') in
              if timed_out timeout_s start_time (t_timeout tk) then Done False
              else Continue self'')"

definition detect_double_tap ::
  "real option \<Rightarrow> real \<Rightarrow> input_manager \<Rightarrow> tick list \<Rightarrow> bool outcome" where
  "detect_double_tap timeout_s start_time self ticks =
     run_loop (detect_double_tap_tick timeout_s start_time) (self\<lparr>last_tap_time := None\<rparr>) ticks"

subsection \<open>\<open>detect_double_click_button\<close>\<close>

text \<open>
  \<^verbatim>\<open>
  last_left_click = None
  last_right_click = None
  start_time = time.monotonic()
  DOUBLE_CLICK_WINDOW = 0.5
  while True:
      self.update()
      now = time.monotonic()
      if self.left_button.fell:
          if (last_left_click is not None and
              (now - last_left_click) <= DOUBLE_CLICK_WINDOW):
              return True
          else:
              last_left_click = now
      if self.right_button.fell:
          if (last_right_click is not None and
              (now - last_right_click) <= DOUBLE_CLICK_WINDOW):
              return True
          else:
              last_right_click = now
      ...
      if timeout_s and (time.monotonic() - start_time) > timeout_s:
          return False
      time.sleep(0.02)
  \<close>
\<close>

definition DOUBLE_CLICK_WINDOW :: real where
  "DOUBLE_CLICK_WINDOW = 0.5"

type_synonym click_state = "input_manager \<times> real option \<times> real option"

definition detect_double_click_button_tick ::
  "real option \<Rightarrow> real \<Rightarrow> click_state \<Rightarrow> tick \<Rightarrow> (bool, click_state) step" where
  "detect_double_click_button_tick timeout_s start_time st tk =
     (case st of (self, last_left_click, last_right_click) \<Rightarrow>
        (case update self tk of
           Inl e \<Rightarrow> Fail e
         | Inr self' \<Rightarrow>
             let now = t_now tk in
               if left_fell tk \<and> second_within DOUBLE_CLICK_WINDOW last_left_click now then Done True
               else
                 let last_left_click' = (if left_fell tk then Some now else last_left_click) in
                   if right_fell tk \<and> second_within DOUBLE_CLICK_WINDOW last_right_click now
                   then Done True
                   else
                     let last_right_click' = (if right_fell tk then Some now else last_right_click) in
                       if timed_out timeout_s start_time (t_timeout tk) then Done False
                       else Continue (self', last_left_click', last_right_click')))"

definition detect_double_click_button ::
  "real option \<Rightarrow> real \<Rightarrow> input_manager \<Rightarrow> tick list \<Rightarrow> bool outcome" where
  "detect_double_click_button timeout_s start_time self ticks =
     run_loop (detect_double_click_button_tick timeout_s start_time) (self, None, None) ticks"

subsection \<open>\<open>navigate_choice\<close>\<close>

text \<open>Python's \<^verbatim>\<open>int()\<close> on a float truncates towards zero.\<close>

definition py_int :: "real \<Rightarrow> int" where
  "py_int r = (if 0 \<le> r then \<lfloor>r\<rfloor> else \<lceil>r\<rceil>)"

text \<open>
  The calls of \<^verbatim>\<open>display_callback(choice_text, countdown)\<close> are recorded, in order,
  as the list of their argument pairs. A press of the left (\<open>delta = -1\<close>) or right
  (\<open>delta = 1\<close>) button:
  \<^verbatim>\<open>
  if self.left_button_pressed():
      current_index = (current_index - 1) % len(choices)
      remaining = int(timeout_s - (time.monotonic() - start_time))
      display_callback(choices[current_index], remaining)
  \<close>
  Python's \<^verbatim>\<open>%\<close> with a positive modulus gives a result from \<open>0\<close> to \<open>len(choices) - 1\<close>,
  as \<open>mod\<close> on \<open>int\<close> does, so the list access is in range.
\<close>

type_synonym display_calls = "(string \<times> real) list"

definition press ::
  "string list \<Rightarrow> real \<Rightarrow> real \<Rightarrow> bool \<Rightarrow> int \<Rightarrow> real \<Rightarrow> int \<times> display_calls \<Rightarrow> int \<times> display_calls" where
  "press choices timeout_s start_time fell delta t st =
     (case st of (current_index, shown) \<Rightarrow>
        if fell then
          let current_index' = (current_index + delta) mod int (length choices);
              remaining = py_int (timeout_s - (t - start_time))
          in (current_index', shown @ [(choices ! nat current_index', of_int remaining)])
        else (current_index, shown))"

text \<open>
  \<^verbatim>\<open>
  while True:
      self.update()
      ...                       # left press, right press
      if self.encoder_button_pressed():
          return current_index
      remaining = int(timeout_s - (time.monotonic() - start_time))
      if remaining < last_countdown:
          display_callback(choices[current_index], remaining)
          last_countdown = remaining
      if (time.monotonic() - start_time) > timeout_s:
          return -1
      time.sleep(0.01)
  \<close>
  The model returns the index together with the recorded display calls.
\<close>

type_synonym navigate_state = "input_manager \<times> int \<times> real \<times> display_calls"

definition navigate_choice_tick ::
  "string list \<Rightarrow> real \<Rightarrow> real \<Rightarrow> navigate_state \<Rightarrow> tick \<Rightarrow> (int \<times> display_calls, navigate_state) step" where
  "navigate_choice_tick choices timeout_s start_time st tk =
     (case st of (self, current_index, last_countdown, shown) \<Rightarrow>
        (case update self tk of
           Inl e \<Rightarrow> Fail e
         | Inr self' \<Rightarrow>
             (case press choices timeout_s start_time (right_fell tk) 1 (t_right tk)
                     (press choices timeout_s start_time (left_fell tk) (- 1) (t_left tk)
                        (current_index, shown)) of
                (current_index', shown') \<Rightarrow>
                  if encoder_fell tk then Done (current_index', shown')
                  else
                    let remaining = py_int (timeout_s - (t_countdown tk - start_time));
                        decreased = (of_int remaining < last_countdown);
                        shown'' = (if decreased
                                   then shown' @ [(choices ! nat current_index', of_int remaining)]
                                   else shown');
                        last_countdown' = (if decreased then of_int remaining else last_countdown)
                    in
                      if t_timeout tk - start_time > timeout_s then Done (- 1, shown'')
                      else Continue (self', current_index', last_countdown', shown''))))"

text \<open>
  \<^verbatim>\<open>
  current_index = 0
  start_time = time.monotonic()
  last_countdown = timeout_s
  display_callback(choices[current_index], timeout_s)
  \<close>
  \<^verbatim>\<open>choices[0]\<close> raises \<open>IndexError\<close> on the empty list.
\<close>

definition navigate_choice ::
  "string list \<Rightarrow> real \<Rightarrow> real \<Rightarrow> input_manager \<Rightarrow> tick list \<Rightarrow> (int \<times> display_calls) outcome" where
  "navigate_choice choices timeout_s start_time self ticks =
     (case choices of
        [] \<Rightarrow> Raise IndexError
      | choice # _ \<Rightarrow>
          run_loop (navigate_choice_tick choices timeout_s start_time)
            (self, 0, timeout_s, [(choice, timeout_s)]) ticks)"

subsection \<open>\<open>get_direction\<close> and the reader of \<^verbatim>\<open>direction_detection_v2.py\<close>\<close>

text \<open>
  The fields of \<open>AccelerometerReader\<close> (\<open>rd_alpha\<close> is its \<open>alpha\<close>, \<open>rd_direction\<close> its
  \<open>_direction\<close>, and so on), and its \<open>update\<close>:
  \<^verbatim>\<open>
  def update(self):
      x_raw, y_raw, z_raw = self._accel.acceleration
      self.x_filt = self.alpha * x_raw + (1 - self.alpha) * self.x_filt
      self.y_filt = self.alpha * y_raw + (1 - self.alpha) * self.y_filt
      self.z_filt = self.alpha * z_raw + (1 - self.alpha) * self.z_filt
      abs_x, abs_y, abs_z = abs(self.x_filt), abs(self.y_filt), abs(self.z_filt)
      if abs_x >= abs_y and abs_x >= abs_z:
          dominant = "X"; value = self.x_filt
      elif abs_y >= abs_x and abs_y >= abs_z:
          dominant = "Y"; value = self.y_filt
      else:
          dominant = "Z"; value = self.z_filt
      new_direction = "NONE"
      if value > self.threshold:
          new_direction = "+" + dominant
      elif value < -self.threshold:
          new_direction = "-" + dominant
      if new_direction == self._direction and new_direction != "NONE":
          self._count += 1
      else:
          self._direction = new_direction
          self._count = 1
      if self._direction != "NONE" and self._count >= self.confirm_samples:
          return self._direction
      return None
  \<close>
\<close>

record accelerometer_reader =
  x_filt :: real
  y_filt :: real
  z_filt :: real
  rd_alpha :: real
  rd_confirm_samples :: int
  rd_threshold :: real
  rd_direction :: string
  rd_count :: int

definition reader_update ::
  "accelerometer_reader \<Rightarrow> vec3 option \<Rightarrow> error + (string option \<times> accelerometer_reader)" where
  "reader_update rd reading =
     (case reading of
        None \<Rightarrow> Inl OSError
      | Some (x_raw, y_raw, z_raw) \<Rightarrow>
          let xf = rd_alpha rd * x_raw + (1 - rd_alpha rd) * x_filt rd;
              yf = rd_alpha rd * y_raw + (1 - rd_alpha rd) * y_filt rd;
              zf = rd_alpha rd * z_raw + (1 - rd_alpha rd) * z_filt rd;
              (dominant, val) =
                (if \<bar>xf\<bar> \<ge> \<bar>yf\<bar> \<and> \<bar>xf\<bar> \<ge> \<bar>zf\<bar> then (''X'', xf)
                 else if \<bar>yf\<bar> \<ge> \<bar>xf\<bar> \<and> \<bar>yf\<bar> \<ge> \<bar>zf\<bar> then (''Y'', yf)
                 else (''Z'', zf));
              new_direction =
                (if val > rd_threshold rd then ''+'' @ dominant
                 else if val < - rd_threshold rd then ''-'' @ dominant
                 else ''NONE'');
              rd' = rd\<lparr>x_filt := xf, y_filt := yf, z_filt := zf\<rparr>;
              rd'' =
                (if new_direction = rd_direction rd' \<and> new_direction \<noteq> ''NONE''
                 then rd'\<lparr>rd_count := rd_count rd' + 1\<rparr>
                 else rd'\<lparr>rd_direction := new_direction, rd_count := 1\<rparr>)
          in
            if rd_direction rd'' \<noteq> ''NONE'' \<and> rd_count rd'' \<ge> rd_confirm_samples rd''
            then Inr (Some (rd_direction rd''), rd'')
            else Inr (None, rd''))"

text \<open>
  \<^verbatim>\<open>
  def get_direction(self):
      if self._accel_reader is None:
          return None
      try:
          return self._accel_reader.update()
      except Exception:
          return None
  \<close>
  The read is the first statement of the reader's \<open>update\<close>, so a read that raises
  leaves the reader as it was.
\<close>

definition get_direction ::
  "accelerometer_reader option \<Rightarrow> vec3 option \<Rightarrow> string option \<times> accelerometer_reader option" where
  "get_direction accel_reader reading =
     (case accel_reader of
        None \<Rightarrow> (None, None)
      | Some rd \<Rightarrow>
          (case reader_update rd reading of
             Inl e \<Rightarrow> (None, Some rd)
           | Inr (d, rd') \<Rightarrow> (d, Some rd')))"

section \<open>Predicates and inputs used in the statements\<close>



text \<open>
  A manager at rest (filtered values and baseline all zero), and a tick at clock value
  \<open>t\<close> with the reading \<open>v\<close>, no edge, both buttons released and no tap; the concrete
  inputs of the examples below are built from them.
\<close>

definition rest_manager :: input_manager where
  "rest_manager =
     \<lparr>x_filtered = 0, y_filtered = 0, z_filtered = 0,
      baseline_x = 0, baseline_y = 0, baseline_z = 0,
      last_tap_time = None, directions_detected = {}\<rparr>"

definition plain_tick :: "real \<Rightarrow> vec3 option \<Rightarrow> tick" where
  "plain_tick t v =
     \<lparr>acceleration = v,
      left_fell = False, left_value = True, right_fell = False, right_value = True,
      encoder_fell = False, tap = False,
      t_now = t, t_left = t, t_right = t, t_countdown = t, t_timeout = t\<rparr>"

text \<open>A tick on which both buttons read pressed.\<close>

definition held_tick :: "real \<Rightarrow> tick" where
  "held_tick t = (plain_tick t (Some (0, 0, 0)))\<lparr>left_value := False, right_value := False\<rparr>"

text \<open>
  For the statements about \<open>detect_movement\<close>: the component of a triple of diffs that
  belongs to an axis name; the counters and the detected set after the diffs \<open>ds\<close> of
  successive ticks, from the initial ones of a call; and the diffs that the loop
  computes on successive ticks, each after the \<open>update\<close> of its tick (up to the first
  read that fails).
\<close>

definition axis_diff :: "string \<Rightarrow> vec3 \<Rightarrow> real" where
  "axis_diff a dv =
     (case dv of (x_diff, y_diff, z_diff) \<Rightarrow>
        if a = ''x'' then x_diff else if a = ''y'' then y_diff else z_diff)"

definition confirm_run :: "string set \<Rightarrow> vec3 list \<Rightarrow> (string \<Rightarrow> int) \<times> string set" where
  "confirm_run required ds = foldl (\<lambda>st dv. confirm_axes required dv st) ((\<lambda>_. 0), {}) ds"

fun diffs_seen :: "input_manager \<Rightarrow> tick list \<Rightarrow> vec3 list" where
  "diffs_seen self [] = []"
| "diffs_seen self (tk # tks) =
     (case update self tk of
        Inl e \<Rightarrow> []
      | Inr self' \<Rightarrow> axis_diffs self' # diffs_seen self' tks)"

text \<open>
  For the statements about \<open>detect_all_six_directions\<close>: the tokens whose test holds
  on a filtered state, as the text of the design has them (both signs of each requested
  axis against \<open>TILT_THRESHOLD\<close>, the filtered value itself for X and Y, the filtered
  value minus the baseline for Z); and the set \<open>directions_detected\<close> after the checks
  of successive ticks (up to the first read that fails).
\<close>

definition crossed :: "string set \<Rightarrow> input_manager \<Rightarrow> string set" where
  "crossed axes_set self =
     (if ''x'' \<in> axes_set \<and> x_filtered self > TILT_THRESHOLD then {''+X''} else {})
     \<union> (if ''x'' \<in> axes_set \<and> x_filtered self < - TILT_THRESHOLD then {''-X''} else {})
     \<union> (if ''y'' \<in> axes_set \<and> y_filtered self > TILT_THRESHOLD then {''+Y''} else {})
     \<union> (if ''y'' \<in> axes_set \<and> y_filtered self < - TILT_THRESHOLD then {''-Y''} else {})
     \<union> (if ''z'' \<in> axes_set \<and> z_filtered self - baseline_z self > TILT_THRESHOLD then {''+Z''} else {})
     \<union> (if ''z'' \<in> axes_set \<and> z_filtered self - baseline_z self < - TILT_THRESHOLD then {''-Z''} else {})"

fun directions_after :: "string set \<Rightarrow> input_manager \<Rightarrow> tick list \<Rightarrow> string set" where
  "directions_after axes_set self [] = directions_detected self"
| "directions_after axes_set self (tk # tks) =
     (case update self tk of
        Inl e \<Rightarrow> directions_detected self
      | Inr self' \<Rightarrow> directions_after axes_set (check_directions axes_set self') tks)"

text \<open>
  For the statements about \<open>detect_double_click_button\<close>: the clock value \<open>now\<close> of the
  most recent of the given ticks that has the edge \<open>fell\<close>, if there is one.
\<close>

definition last_click :: "(tick \<Rightarrow> bool) \<Rightarrow> tick list \<Rightarrow> real option" where
  "last_click fell ticks =
     (case rev (filter fell ticks) of [] \<Rightarrow> None | tk # _ \<Rightarrow> Some (t_now tk))"

text \<open>Ticks with a press of the left, or of the right, button.\<close>

definition left_click :: "real \<Rightarrow> tick" where
  "left_click t = (plain_tick t (Some (0, 0, 0)))\<lparr>left_fell := True\<rparr>"

definition right_click :: "real \<Rightarrow> tick" where
  "right_click t = (plain_tick t (Some (0, 0, 0)))\<lparr>right_fell := True\<rparr>"

text \<open>
  For the statements about \<open>navigate_choice\<close>: the index after the presses of one
  tick (a left press first, then a right press, each modulo the number \<open>n\<close> of
  choices), and after those of successive ticks from the index \<open>0\<close>; the display calls
  made for the presses of a tick; and the display call of the countdown check.
\<close>

definition moved :: "nat \<Rightarrow> tick \<Rightarrow> int \<Rightarrow> int" where
  "moved n tk i =
     (let i1 = (if left_fell tk then (i - 1) mod int n else i)
      in if right_fell tk then (i1 + 1) mod int n else i1)"

definition index_after :: "nat \<Rightarrow> tick list \<Rightarrow> int" where
  "index_after n ticks = foldl (\<lambda>i tk. moved n tk i) 0 ticks"

definition pressed_calls :: "string list \<Rightarrow> real \<Rightarrow> real \<Rightarrow> tick \<Rightarrow> int \<Rightarrow> display_calls" where
  "pressed_calls choices timeout_s start_time tk i =
     (let i1 = (if left_fell tk then (i - 1) mod int (length choices) else i);
          i2 = (if right_fell tk then (i1 + 1) mod int (length choices) else i1)
      in (if left_fell tk
          then [(choices ! nat i1, of_int (py_int (timeout_s - (t_left tk - start_time))))]
          else [])
         @ (if right_fell tk
            then [(choices ! nat i2, of_int (py_int (timeout_s - (t_right tk - start_time))))]
            else []))"

definition countdown_calls :: "string list \<Rightarrow> real \<Rightarrow> real \<Rightarrow> tick \<Rightarrow> int \<Rightarrow> real \<Rightarrow> display_calls" where
  "countdown_calls choices timeout_s start_time tk i last_countdown =
     (let remaining = py_int (timeout_s - (t_countdown tk - start_time))
      in if of_int remaining < last_countdown then [(choices ! nat i, of_int remaining)] else [])"

text \<open>A tick with a press of the encoder button.\<close>

definition encoder_press :: "real \<Rightarrow> tick" where
  "encoder_press t = (plain_tick t (Some (0, 0, 0)))\<lparr>encoder_fell := True\<rparr>"

section \<open>Polling loops: invariants\<close>

lemma run_loop_never:
  assumes "I s" and "\<forall>tk\<in>set ticks. P tk"
    and step: "\<And>s tk. I s \<Longrightarrow> P tk \<Longrightarrow>
                 body s tk \<noteq> Done r \<and> (\<forall>s'. body s tk = Continue s' \<longrightarrow> I s')"
  shows "run_loop body s ticks \<noteq> Return r"
  using assms(1,2)
proof (induction ticks arbitrary: s)
  case Nil
  show ?case by simp
next
  case (Cons tk tks)
  from step [of s tk] Cons.prems
  have a: "body s tk \<noteq> Done r" and b: "\<forall>s'. body s tk = Continue s' \<longrightarrow> I s'"
    by simp_all
  show ?case
  proof (cases "body s tk")
    case (Done r')
    with a show ?thesis by simp
  next
    case (Fail e)
    then show ?thesis by simp
  next
    case (Continue s')
    with b have "I s'" by simp
    from Cons.IH [OF this] Cons.prems(2) Continue show ?thesis by simp
  qed
qed

section \<open>A device held still\<close>









section \<open>A timeout of zero\<close>

lemma timed_out_zero [simp]: "timed_out (Some 0) start_time t = False"
  by (simp add: timed_out_def)

lemma timed_out_None [simp]: "timed_out None start_time t = False"
  by (simp add: timed_out_def)

lemma run_loop_no_Done:
  assumes "\<And>s tk. body s tk \<noteq> Done r"
  shows "run_loop body s ticks \<noteq> Return r"
  by (rule run_loop_never [where I = "\<lambda>_. True" and P = "\<lambda>_. True"]) (simp_all add: assms)

lemma mv_zero: "detect_movement_tick (Some 0) required start_time st tk \<noteq> Done False"
  by (simp add: detect_movement_tick_def Let_def split: prod.splits sum.splits option.splits)

lemma tilt_zero: "detect_tilt_forward_tick (Some 0) start_time self tk \<noteq> Done False"
  by (simp add: detect_tilt_forward_tick_def split: sum.splits)

lemma six_zero: "detect_all_six_directions_tick (Some 0) axes_set n start_time self tk \<noteq> Done False"
  by (simp add: detect_all_six_directions_tick_def Let_def split: sum.splits)

lemma tap_zero: "detect_double_tap_tick (Some 0) start_time self tk \<noteq> Done False"
  by (simp add: detect_double_tap_tick_def Let_def split: sum.splits)

lemma click_zero: "detect_double_click_button_tick (Some 0) start_time st tk \<noteq> Done False"
  by (simp add: detect_double_click_button_tick_def Let_def split: prod.splits sum.splits)

lemma mv_zero_None:
  "detect_movement_tick (Some 0) required start_time = detect_movement_tick None required start_time"
  by (intro ext) (simp add: detect_movement_tick_def Let_def split: sum.splits prod.splits option.splits)

lemma tilt_zero_None:
  "detect_tilt_forward_tick (Some 0) start_time = detect_tilt_forward_tick None start_time"
  by (intro ext) (simp add: detect_tilt_forward_tick_def Let_def split: sum.splits prod.splits option.splits)

lemma six_zero_None:
  "detect_all_six_directions_tick (Some 0) axes_set n start_time
     = detect_all_six_directions_tick None axes_set n start_time"
  by (intro ext) (simp add: detect_all_six_directions_tick_def Let_def split: sum.splits prod.splits option.splits)

lemma tap_zero_None:
  "detect_double_tap_tick (Some 0) start_time = detect_double_tap_tick None start_time"
  by (intro ext) (simp add: detect_double_tap_tick_def Let_def split: sum.splits prod.splits option.splits)

lemma click_zero_None:
  "detect_double_click_button_tick (Some 0) start_time
     = detect_double_click_button_tick None start_time"
  by (intro ext) (simp add: detect_double_click_button_tick_def Let_def split: sum.splits prod.splits option.splits)

text \<open>
  C10. With the timeout \<open>0\<close> each of \<open>detect_movement\<close>, \<open>detect_tilt_forward\<close>,
  \<open>detect_all_six_directions\<close>, \<open>detect_double_tap\<close> and \<open>detect_double_click_button\<close>
  gives what it gives with the timeout \<open>None\<close>, and never returns \<open>False\<close>; while
  \<open>both_buttons_held\<close> with the duration \<open>0\<close> returns \<open>True\<close> at its first test of the
  clock (which cannot be before \<open>start_time\<close>), whatever the buttons and the
  accelerometer would give: \<open>update\<close> is not called.
\<close>

theorem zero_timeout_is_no_timeout:
  "detect_movement (Some 0) require_axes start_time self ticks
     = detect_movement None require_axes start_time self ticks
   \<and> detect_tilt_forward (Some 0) start_time self ticks
     = detect_tilt_forward None start_time self ticks
   \<and> detect_all_six_directions (Some 0) axes start_time self ticks
     = detect_all_six_directions None axes start_time self ticks
   \<and> detect_double_tap (Some 0) start_time self ticks
     = detect_double_tap None start_time self ticks
   \<and> detect_double_click_button (Some 0) start_time self ticks
     = detect_double_click_button None start_time self ticks
   \<and> detect_movement (Some 0) require_axes start_time self ticks \<noteq> Return False
   \<and> detect_tilt_forward (Some 0) start_time self ticks \<noteq> Return False
   \<and> detect_all_six_directions (Some 0) axes start_time self ticks \<noteq> Return False
   \<and> detect_double_tap (Some 0) start_time self ticks \<noteq> Return False
   \<and> detect_double_click_button (Some 0) start_time self ticks \<noteq> Return False
   \<and> (start_time \<le> t_now tk \<longrightarrow> both_buttons_held 0 start_time self (tk # tks) = Return True)"
proof (intro conjI impI)
  show "detect_movement (Some 0) require_axes start_time self ticks
     = detect_movement None require_axes start_time self ticks"
    by (simp add: detect_movement_def mv_zero_None)
  show "detect_tilt_forward (Some 0) start_time self ticks
     = detect_tilt_forward None start_time self ticks"
    by (simp add: detect_tilt_forward_def tilt_zero_None)
  show "detect_all_six_directions (Some 0) axes start_time self ticks
     = detect_all_six_directions None axes start_time self ticks"
    by (simp add: detect_all_six_directions_def six_zero_None)
  show "detect_double_tap (Some 0) start_time self ticks
     = detect_double_tap None start_time self ticks"
    by (simp add: detect_double_tap_def tap_zero_None)
  show "detect_double_click_button (Some 0) start_time self ticks
     = detect_double_click_button None start_time self ticks"
    by (simp add: detect_double_click_button_def click_zero_None)
  show "detect_movement (Some 0) require_axes start_time self ticks \<noteq> Return False"
    unfolding detect_movement_def by (rule run_loop_no_Done) (rule mv_zero)
  show "detect_tilt_forward (Some 0) start_time self ticks \<noteq> Return False"
    unfolding detect_tilt_forward_def by (rule run_loop_no_Done) (rule tilt_zero)
  show "detect_all_six_directions (Some 0) axes start_time self ticks \<noteq> Return False"
    unfolding detect_all_six_directions_def Let_def by (rule run_loop_no_Done) (rule six_zero)
  show "detect_double_tap (Some 0) start_time self ticks \<noteq> Return False"
    unfolding detect_double_tap_def by (rule run_loop_no_Done) (rule tap_zero)
  show "detect_double_click_button (Some 0) start_time self ticks \<noteq> Return False"
    unfolding detect_double_click_button_def by (rule run_loop_no_Done) (rule click_zero)
next
  assume "start_time \<le> t_now tk"
  then show "both_buttons_held 0 start_time self (tk # tks) = Return True"
    by (simp add: both_buttons_held_def both_buttons_held_tick_def)
qed

theorem zero_timeout_is_no_timeout_witness:
  "detect_movement (Some 0) None 0 rest_manager [plain_tick 1 (Some (0, 0, 0))] = Running
   \<and> both_buttons_held 0 5 rest_manager [plain_tick 5 None] = Return True"
  using zero_timeout_is_no_timeout [of None 0 rest_manager "[plain_tick 1 (Some (0, 0, 0))]" "[]" ]
  by (simp add: plain_tick_def both_buttons_held_def both_buttons_held_tick_def
      detect_movement_def detect_movement_tick_def required_axes_def update_def rest_manager_def
      ema_filter_def axis_diffs_def MOTION_THRESHOLD_def)

section \<open>Polling loops: the pass that returns\<close>

lemma run_loop_append:
  "loop_state body s pre = Some s' \<Longrightarrow> run_loop body s (pre @ rest) = run_loop body s' rest"
  by (induction pre arbitrary: s) (auto split: step.splits)

lemma run_loop_Return:
  "run_loop body s ticks = Return r \<Longrightarrow>
     \<exists>pre tk post s'. ticks = pre @ tk # post \<and> loop_state body s pre = Some s' \<and> body s' tk = Done r"
proof (induction ticks arbitrary: s)
  case Nil
  then show ?case by simp
next
  case (Cons tk tks)
  show ?case
  proof (cases "body s tk")
    case (Done r')
    with Cons.prems have "r' = r" by simp
    with Done have "tk # tks = [] @ tk # tks \<and> loop_state body s [] = Some s \<and> body s tk = Done r"
      by simp
    then show ?thesis by blast
  next
    case (Fail e)
    with Cons.prems show ?thesis by simp
  next
    case (Continue s1)
    with Cons.prems have "run_loop body s1 tks = Return r" by simp
    from Cons.IH [OF this] obtain pre tk' post s'
      where "tks = pre @ tk' # post" "loop_state body s1 pre = Some s'" "body s' tk' = Done r"
      by blast
    with Continue
    have "tk # tks = (tk # pre) @ tk' # post \<and> loop_state body s (tk # pre) = Some s'
            \<and> body s' tk' = Done r"
      by simp
    then show ?thesis by blast
  qed
qed

lemma run_loop_Return_iff:
  "run_loop body s ticks = Return r \<longleftrightarrow>
     (\<exists>pre tk post s'. ticks = pre @ tk # post \<and> loop_state body s pre = Some s' \<and> body s' tk = Done r)"
proof
  assume "run_loop body s ticks = Return r"
  then show "\<exists>pre tk post s'. ticks = pre @ tk # post \<and> loop_state body s pre = Some s'
      \<and> body s' tk = Done r"
    by (rule run_loop_Return)
next
  assume "\<exists>pre tk post s'. ticks = pre @ tk # post \<and> loop_state body s pre = Some s'
      \<and> body s' tk = Done r"
  then obtain pre tk post s' where "ticks = pre @ tk # post" "loop_state body s pre = Some s'"
    "body s' tk = Done r"
    by blast
  then show "run_loop body s ticks = Return r"
    by (simp add: run_loop_append)
qed

section \<open>Holding both buttons\<close>

lemma held_prefix:
  "loop_state (both_buttons_held_tick duration_s start_time) self pre = Some s' \<Longrightarrow>
     \<forall>p\<in>set pre. t_now p - start_time < duration_s \<and> \<not> left_value p \<and> \<not> right_value p"
  by (induction pre arbitrary: self)
     (auto simp: both_buttons_held_tick_def split: if_splits sum.splits)

lemma held_prefix_state:
  "\<forall>p\<in>set pre. t_now p - start_time < duration_s \<and> acceleration p \<noteq> None
       \<and> \<not> left_value p \<and> \<not> right_value p \<Longrightarrow>
     \<exists>s'. loop_state (both_buttons_held_tick duration_s start_time) self pre = Some s'"
  by (induction pre arbitrary: self)
     (auto simp: both_buttons_held_tick_def update_def split: if_splits sum.splits)

text \<open>
  C5. When \<open>both_buttons_held\<close> returns \<open>True\<close>, it has found the duration elapsed at
  some test of the clock, and on every pass before that both levels read pressed
  (\<open>value\<close> false). And it returns \<open>False\<close> on the first pass, made before the duration
  has elapsed, on which either level reads released, whatever the later ticks are: a
  button pressed again afterwards changes nothing.
\<close>

theorem both_buttons_held_continuous:
  "(both_buttons_held duration_s start_time self ticks = Return True \<longrightarrow>
      (\<exists>pre tk post. ticks = pre @ tk # post
         \<and> \<not> t_now tk - start_time < duration_s
         \<and> (\<forall>p\<in>set pre. t_now p - start_time < duration_s \<and> \<not> left_value p \<and> \<not> right_value p)))
   \<and> ((\<forall>p\<in>set held. t_now p - start_time < duration_s \<and> acceleration p \<noteq> None
            \<and> \<not> left_value p \<and> \<not> right_value p)
        \<and> t_now released - start_time < duration_s \<and> acceleration released \<noteq> None
        \<and> (left_value released \<or> right_value released) \<longrightarrow>
       both_buttons_held duration_s start_time self (held @ released # later) = Return False)"
proof (intro conjI impI)
  let ?body = "both_buttons_held_tick duration_s start_time"
  assume "both_buttons_held duration_s start_time self ticks = Return True"
  then obtain pre tk post s' where t: "ticks = pre @ tk # post"
    and s': "loop_state ?body self pre = Some s'" and d: "?body s' tk = Done True"
    unfolding both_buttons_held_def by (blast dest: run_loop_Return)
  from d have "\<not> t_now tk - start_time < duration_s"
    by (auto simp: both_buttons_held_tick_def split: if_splits sum.splits)
  with t held_prefix [OF s']
  show "\<exists>pre tk post. ticks = pre @ tk # post
         \<and> \<not> t_now tk - start_time < duration_s
         \<and> (\<forall>p\<in>set pre. t_now p - start_time < duration_s \<and> \<not> left_value p \<and> \<not> right_value p)"
    by blast
next
  let ?body = "both_buttons_held_tick duration_s start_time"
  assume a: "(\<forall>p\<in>set held. t_now p - start_time < duration_s \<and> acceleration p \<noteq> None
            \<and> \<not> left_value p \<and> \<not> right_value p)
        \<and> t_now released - start_time < duration_s \<and> acceleration released \<noteq> None
        \<and> (left_value released \<or> right_value released)"
  then obtain s' where s': "loop_state ?body self held = Some s'"
    using held_prefix_state [of held start_time duration_s self] by blast
  from a have "?body s' released = Done False"
    by (auto simp: both_buttons_held_tick_def update_def split: sum.splits)
  with s' show "both_buttons_held duration_s start_time self (held @ released # later) = Return False"
    by (simp add: both_buttons_held_def run_loop_append)
qed

theorem both_buttons_held_continuous_witness:
  "both_buttons_held 3 0 rest_manager [held_tick 1, held_tick 2, held_tick 3] = Return True
   \<and> both_buttons_held 3 0 rest_manager
        [held_tick 1, plain_tick 2 (Some (0, 0, 0)), held_tick (5 / 2), held_tick 3] = Return False"
proof -
  have "both_buttons_held 3 0 rest_manager ([held_tick 1] @ plain_tick 2 (Some (0, 0, 0)) # [held_tick (5 / 2), held_tick 3]) = Return False"
    using both_buttons_held_continuous [of 3 0 rest_manager "[]" "[held_tick 1]"
        "plain_tick 2 (Some (0, 0, 0))" "[held_tick (5 / 2), held_tick 3]"]
    by (simp add: held_tick_def plain_tick_def)
  moreover have "both_buttons_held 3 0 rest_manager [held_tick 1, held_tick 2, held_tick 3] = Return True"
    by (simp add: both_buttons_held_def both_buttons_held_tick_def held_tick_def plain_tick_def
        update_def)
  ultimately show ?thesis by simp
qed

section \<open>A read of the accelerometer that fails\<close>

text \<open>
  C7 (amended). When the read of the accelerometer fails during a tick, \<open>update\<close>
  raises, and so does the pass of every detector on that tick, and the call of the
  detector: the fault reaches the caller and the call is abandoned with its counters.
  Only \<open>get_direction\<close> absorbs the failure of its reader: it returns \<open>None\<close> and leaves
  the reader, with its filter state and its count, as it was; it also returns \<open>None\<close>
  when there is no reader.
\<close>

theorem read_failure_propagates:
  "(acceleration tk = None \<longrightarrow>
      update self tk = Inl OSError
      \<and> detect_movement_tick timeout_s required start_time mst tk = Fail OSError
      \<and> detect_tilt_forward_tick timeout_s start_time self tk = Fail OSError
      \<and> detect_all_six_directions_tick timeout_s axes_set n start_time self tk = Fail OSError
      \<and> detect_double_tap_tick timeout_s start_time self tk = Fail OSError
      \<and> detect_double_click_button_tick timeout_s start_time cst tk = Fail OSError
      \<and> navigate_choice_tick choices timeout start_time nst tk = Fail OSError
      \<and> (t_now tk - start_time < duration_s \<longrightarrow>
           both_buttons_held_tick duration_s start_time self tk = Fail OSError)
      \<and> detect_movement timeout_s require_axes start_time self (tk # tks) = Raise OSError
      \<and> detect_tilt_forward timeout_s start_time self (tk # tks) = Raise OSError
      \<and> detect_all_six_directions timeout_s axes start_time self (tk # tks) = Raise OSError
      \<and> detect_double_tap timeout_s start_time self (tk # tks) = Raise OSError
      \<and> detect_double_click_button timeout_s start_time self (tk # tks) = Raise OSError
      \<and> (choices \<noteq> [] \<longrightarrow> navigate_choice choices timeout start_time self (tk # tks) = Raise OSError)
      \<and> (t_now tk - start_time < duration_s \<longrightarrow>
           both_buttons_held duration_s start_time self (tk # tks) = Raise OSError))
   \<and> get_direction None reading = (None, None)
   \<and> get_direction (Some rd) None = (None, Some rd)"
proof -
  have u: "update s tk = Inl OSError" if "acceleration tk = None" for s
    using that by (simp add: update_def)
  have "get_direction None reading = (None, None)"
    by (simp add: get_direction_def)
  moreover have "get_direction (Some rd) None = (None, Some rd)"
    by (simp add: get_direction_def reader_update_def)
  moreover have "navigate_choice choices timeout start_time self (tk # tks) = Raise OSError"
    if "acceleration tk = None" "choices \<noteq> []"
    using that u by (cases choices) (simp_all add: navigate_choice_def navigate_choice_tick_def)
  ultimately show ?thesis
    using u
    by (cases mst; cases cst; cases nst)
       (simp add: detect_movement_def detect_movement_tick_def
        detect_tilt_forward_def detect_tilt_forward_tick_def
        detect_all_six_directions_def detect_all_six_directions_tick_def
        detect_double_tap_def detect_double_tap_tick_def
        detect_double_click_button_def detect_double_click_button_tick_def
        navigate_choice_tick_def both_buttons_held_def both_buttons_held_tick_def)
qed

theorem read_failure_propagates_witness:
  "update rest_manager (plain_tick 0 None) = Inl OSError
   \<and> detect_double_tap None 0 rest_manager [plain_tick 0 None] = Raise OSError"
  using read_failure_propagates [where tk = "plain_tick 0 None" and self = rest_manager
      and timeout_s = None and start_time = 0 and tks = "[]"]
  by (simp add: plain_tick_def)

text \<open>
  C7, as stated, fails: one failed read makes \<open>update\<close> raise, and a call of
  \<open>detect_movement\<close> with thirty seconds left raises on it instead of going on to the
  next tick.
\<close>

theorem read_failure_counterexample:
  "update rest_manager (plain_tick 0 None) = Inl OSError
   \<and> detect_movement (Some 30) (Some [''x'', ''y'']) 0 rest_manager
        [plain_tick 0 None, plain_tick 1 (Some (0, 0, 0))] = Raise OSError"
  by (simp add: update_def plain_tick_def detect_movement_def detect_movement_tick_def)

section \<open>Confirmation of the required axes\<close>

lemma confirm_axis_other:
  assumes "a \<noteq> b"
  shows "fst (confirm_axis required b d st) a = fst st a"
    and "a \<in> snd (confirm_axis required b d st) \<longleftrightarrow> a \<in> snd st"
  using assms by (cases st; simp add: confirm_axis_def Let_def)+

lemma confirm_axis_same:
  assumes "a \<in> required"
  shows "fst (confirm_axis required a d st) a = (if d > MOTION_THRESHOLD then fst st a + 1 else 0)"
    and "a \<in> snd (confirm_axis required a d st) \<longleftrightarrow>
           a \<in> snd st \<or> (fst (confirm_axis required a d st) a \<ge> 5 \<and> d > MOTION_THRESHOLD * 1.2)"
  using assms
  by (cases st; auto simp: confirm_axis_def Let_def CONFIRM_THRESHOLD_def MOTION_THRESHOLD_def)+

lemma confirm_axis_mono: "snd st \<subseteq> snd (confirm_axis required a d st)"
  by (cases st) (auto simp: confirm_axis_def Let_def)

lemma confirm_axes_mono: "snd st \<subseteq> snd (confirm_axes required dv st)"
proof -
  obtain x y z where dv: "dv = (x, y, z)" by (cases dv) auto
  have "snd st \<subseteq> snd (confirm_axis required ''x'' x st)"
    by (rule confirm_axis_mono)
  also have "\<dots> \<subseteq> snd (confirm_axis required ''y'' y (confirm_axis required ''x'' x st))"
    by (rule confirm_axis_mono)
  also have "\<dots> \<subseteq> snd (confirm_axis required ''z'' z
      (confirm_axis required ''y'' y (confirm_axis required ''x'' x st)))"
    by (rule confirm_axis_mono)
  finally show ?thesis by (simp add: confirm_axes_def dv)
qed

lemma confirm_axes_count:
  assumes "a \<in> required" "a \<in> {''x'', ''y'', ''z''}"
  shows "fst (confirm_axes required dv st) a
           = (if axis_diff a dv > MOTION_THRESHOLD then fst st a + 1 else 0)"
proof -
  obtain x y z where dv: "dv = (x, y, z)" by (cases dv) auto
  from assms(2) consider "a = ''x''" | "a = ''y''" | "a = ''z''" by auto
  then show ?thesis
  proof cases
    case 1
    then show ?thesis
      using assms(1)
      by (simp add: confirm_axes_def dv axis_diff_def confirm_axis_other confirm_axis_same)
  next
    case 2
    then show ?thesis
      using assms(1)
      by (simp add: confirm_axes_def dv axis_diff_def confirm_axis_other confirm_axis_same)
  next
    case 3
    then show ?thesis
      using assms(1)
      by (simp add: confirm_axes_def dv axis_diff_def confirm_axis_other confirm_axis_same)
  qed
qed

lemma confirm_axes_detected:
  assumes "a \<in> required" "a \<in> {''x'', ''y'', ''z''}"
  shows "a \<in> snd (confirm_axes required dv st) \<longleftrightarrow>
           a \<in> snd st
           \<or> (fst (confirm_axes required dv st) a \<ge> 5 \<and> axis_diff a dv > MOTION_THRESHOLD * 1.2)"
proof -
  obtain x y z where dv: "dv = (x, y, z)" by (cases dv) auto
  from assms(2) consider "a = ''x''" | "a = ''y''" | "a = ''z''" by auto
  then show ?thesis
  proof cases
    case 1
    then show ?thesis
      using assms(1) confirm_axis_same(2) [of "''x''" required x st]
      by (simp add: confirm_axes_def dv axis_diff_def confirm_axis_other)
  next
    case 2
    then show ?thesis
      using assms(1) confirm_axis_same(2) [of "''y''" required y "confirm_axis required ''x'' x st"]
      by (simp add: confirm_axes_def dv axis_diff_def confirm_axis_other)
  next
    case 3
    then show ?thesis
      using assms(1) confirm_axis_same(2) [of "''z''" required z
          "confirm_axis required ''y'' y (confirm_axis required ''x'' x st)"]
      by (simp add: confirm_axes_def dv axis_diff_def confirm_axis_other)
  qed
qed


lemma confirm_run_snoc: "confirm_run required (ds @ [dv]) = confirm_axes required dv (confirm_run required ds)"
  by (simp add: confirm_run_def)

lemma confirm_run_Nil: "confirm_run required [] = ((\<lambda>_. 0), {})"
  by (simp add: confirm_run_def)

lemma confirm_run_count:
  assumes "a \<in> required" "a \<in> {''x'', ''y'', ''z''}"
  shows "fst (confirm_run required ds) a
           = int (length (takeWhile (\<lambda>dv. axis_diff a dv > MOTION_THRESHOLD) (rev ds)))"
proof (induction ds rule: rev_induct)
  case Nil
  show ?case by (simp add: confirm_run_Nil)
next
  case (snoc dv ds)
  then show ?case
    by (simp add: confirm_run_snoc confirm_axes_count [OF assms])
qed

lemma streak_suffix:
  "m \<le> length (takeWhile P (rev xs)) \<longleftrightarrow>
     (\<exists>pre suf. xs = pre @ suf \<and> length suf = m \<and> (\<forall>x\<in>set suf. P x))"
proof
  assume m: "m \<le> length (takeWhile P (rev xs))"
  let ?tw = "takeWhile P (rev xs)"
  have "rev xs = (take m ?tw @ drop m ?tw) @ dropWhile P (rev xs)"
    unfolding append_take_drop_id by (rule takeWhile_dropWhile_id [symmetric])
  then have "rev xs = take m ?tw @ (drop m ?tw @ dropWhile P (rev xs))"
    by (simp only: append_assoc)
  then have "xs = rev (drop m ?tw @ dropWhile P (rev xs)) @ rev (take m ?tw)"
    by (metis rev_append rev_rev_ident)
  moreover have "length (rev (take m ?tw)) = m"
    using m by simp
  moreover have "\<forall>x\<in>set (rev (take m ?tw)). P x"
    by (auto dest: in_set_takeD set_takeWhileD)
  ultimately show "\<exists>pre suf. xs = pre @ suf \<and> length suf = m \<and> (\<forall>x\<in>set suf. P x)"
    by blast
next
  assume "\<exists>pre suf. xs = pre @ suf \<and> length suf = m \<and> (\<forall>x\<in>set suf. P x)"
  then obtain pre suf where xs: "xs = pre @ suf" and l: "length suf = m" and p: "\<forall>x\<in>set suf. P x"
    by blast
  have "takeWhile P (rev xs) = rev suf @ takeWhile P (rev pre)"
    unfolding xs rev_append by (rule takeWhile_append2) (use p in simp)
  with l show "m \<le> length (takeWhile P (rev xs))"
    by simp
qed

lemma confirm_run_detected:
  assumes "a \<in> required" "a \<in> {''x'', ''y'', ''z''}"
  shows "a \<in> snd (confirm_run required ds) \<longleftrightarrow>
           (\<exists>pre five post. ds = pre @ five @ post \<and> length five = 5
              \<and> (\<forall>dv\<in>set five. axis_diff a dv > MOTION_THRESHOLD)
              \<and> axis_diff a (last five) > MOTION_THRESHOLD * 1.2)"
    (is "?L ds \<longleftrightarrow> ?R ds")
proof (induction ds rule: rev_induct)
  case Nil
  show ?case by (simp add: confirm_run_Nil)
next
  case (snoc dv ds)
  let ?P = "\<lambda>dv. axis_diff a dv > MOTION_THRESHOLD"
  have step: "?L (ds @ [dv]) \<longleftrightarrow>
      ?L ds \<or> (5 \<le> length (takeWhile ?P (rev (ds @ [dv]))) \<and> axis_diff a dv > MOTION_THRESHOLD * 1.2)"
    using confirm_axes_detected [OF assms, of dv "confirm_run required ds"]
      confirm_run_count [OF assms, of "ds @ [dv]"]
    by (simp add: confirm_run_snoc)
  show ?case
  proof
    assume "?L (ds @ [dv])"
    with step consider "?L ds"
      | "5 \<le> length (takeWhile ?P (rev (ds @ [dv])))" "axis_diff a dv > MOTION_THRESHOLD * 1.2"
      by blast
    then show "?R (ds @ [dv])"
    proof cases
      case 1
      with snoc.IH obtain pre five post where "ds = pre @ five @ post" "length five = 5"
        "\<forall>dv\<in>set five. ?P dv" "axis_diff a (last five) > MOTION_THRESHOLD * 1.2"
        by blast
      then have "ds @ [dv] = pre @ five @ (post @ [dv]) \<and> length five = 5
          \<and> (\<forall>dv\<in>set five. ?P dv) \<and> axis_diff a (last five) > MOTION_THRESHOLD * 1.2"
        by simp
      then show ?thesis by blast
    next
      case 2
      from 2(1) obtain pre suf where s: "ds @ [dv] = pre @ suf" "length suf = 5" "\<forall>x\<in>set suf. ?P x"
        unfolding streak_suffix by blast
      then have "suf \<noteq> []" by auto
      with s(1) have "last suf = dv"
        by (metis last_appendR last_snoc)
      with s 2(2) have "ds @ [dv] = pre @ suf @ [] \<and> length suf = 5
          \<and> (\<forall>dv\<in>set suf. ?P dv) \<and> axis_diff a (last suf) > MOTION_THRESHOLD * 1.2"
        by simp
      then show ?thesis by blast
    qed
  next
    assume "?R (ds @ [dv])"
    then obtain pre five post where d: "ds @ [dv] = pre @ five @ post" and l: "length five = 5"
      and p: "\<forall>dv\<in>set five. ?P dv" and q: "axis_diff a (last five) > MOTION_THRESHOLD * 1.2"
      by blast
    show "?L (ds @ [dv])"
    proof (cases post rule: rev_cases)
      case Nil
      from l have "five \<noteq> []" by auto
      with d Nil have "last five = dv"
        by (metis append_Nil2 last_appendR last_snoc)
      moreover from d Nil l p have "5 \<le> length (takeWhile ?P (rev (ds @ [dv])))"
        unfolding streak_suffix by auto
      ultimately show ?thesis
        using step q by simp
    next
      case (snoc post' dv')
      with d have "ds = pre @ five @ post'"
        by (metis append_assoc butlast_snoc)
      with l p q have "?R ds" by blast
      with snoc.IH step show ?thesis by simp
    qed
  qed
qed


lemma confirm_fold_mono:
  "snd st \<subseteq> snd (foldl (\<lambda>st dv. confirm_axes required dv st) st ds)"
proof (induction ds arbitrary: st)
  case Nil
  show ?case by simp
next
  case (Cons dv ds)
  have "snd st \<subseteq> snd (confirm_axes required dv st)"
    by (rule confirm_axes_mono)
  also have "\<dots> \<subseteq> snd (foldl (\<lambda>st dv. confirm_axes required dv st) (confirm_axes required dv st) ds)"
    by (rule Cons.IH)
  finally show ?case by simp
qed

lemma movement_tick_True:
  "detect_movement_tick timeout_s (Some required) start_time (self, st) tk = Done True \<longleftrightarrow>
     (\<exists>self'. update self tk = Inr self'
        \<and> required \<subseteq> snd (confirm_axes required (axis_diffs self') st))"
  by (auto simp: detect_movement_tick_def Let_def split: sum.splits)

lemma movement_tick_Continue:
  "detect_movement_tick timeout_s (Some required) start_time (self, st) tk = Continue (self', st') \<longleftrightarrow>
     update self tk = Inr self' \<and> st' = confirm_axes required (axis_diffs self') st
     \<and> \<not> required \<subseteq> snd st' \<and> \<not> timed_out timeout_s start_time (t_timeout tk)"
  by (auto simp: detect_movement_tick_def Let_def split: sum.splits)

lemma movement_loop_state:
  "loop_state (detect_movement_tick timeout_s (Some required) start_time) (self, st) ticks
       = Some (self', st') \<Longrightarrow>
     st' = foldl (\<lambda>st dv. confirm_axes required dv st) st (diffs_seen self ticks)"
proof (induction ticks arbitrary: self st)
  case Nil
  then show ?case by simp
next
  case (Cons tk tks)
  let ?body = "detect_movement_tick timeout_s (Some required) start_time"
  from Cons.prems obtain s1 where c: "?body (self, st) tk = Continue s1"
    and l: "loop_state ?body s1 tks = Some (self', st')"
    by (auto split: step.splits)
  obtain self1 st1 where s1: "s1 = (self1, st1)" by (cases s1) auto
  from c [unfolded s1 movement_tick_Continue]
  have u: "update self tk = Inr self1" and st1: "st1 = confirm_axes required (axis_diffs self1) st"
    by simp_all
  from Cons.IH [OF l [unfolded s1]] u st1 show ?case by simp
qed

lemma movement_True_confirmed:
  "run_loop (detect_movement_tick timeout_s (Some required) start_time) (self, st) ticks = Return True \<Longrightarrow>
     required \<subseteq> snd (foldl (\<lambda>st dv. confirm_axes required dv st) st (diffs_seen self ticks))"
proof (induction ticks arbitrary: self st)
  case Nil
  then show ?case by simp
next
  case (Cons tk tks)
  let ?body = "detect_movement_tick timeout_s (Some required) start_time"
  show ?case
  proof (cases "?body (self, st) tk")
    case (Done r)
    with Cons.prems have "?body (self, st) tk = Done True" by simp
    then obtain self1 where u: "update self tk = Inr self1"
      and r: "required \<subseteq> snd (confirm_axes required (axis_diffs self1) st)"
      unfolding movement_tick_True by blast
    from r confirm_fold_mono [of "confirm_axes required (axis_diffs self1) st" required
        "diffs_seen self1 tks"]
    show ?thesis by (simp add: u)
  next
    case (Fail e)
    with Cons.prems show ?thesis by simp
  next
    case (Continue s1)
    obtain self1 st1 where s1: "s1 = (self1, st1)" by (cases s1) auto
    from Continue [unfolded s1 movement_tick_Continue]
    have u: "update self tk = Inr self1" and st1: "st1 = confirm_axes required (axis_diffs self1) st"
      by simp_all
    from Cons.prems Continue s1 have "run_loop ?body (self1, st1) tks = Return True" by simp
    from Cons.IH [OF this] u st1 show ?thesis by simp
  qed
qed

lemma movement_confirmed_True:
  assumes "\<forall>tk\<in>set ticks. acceleration tk \<noteq> None \<and> \<not> timed_out timeout_s start_time (t_timeout tk)"
    and "required \<subseteq> snd (foldl (\<lambda>st dv. confirm_axes required dv st) st (diffs_seen self ticks))"
    and "\<not> required \<subseteq> snd st"
  shows "run_loop (detect_movement_tick timeout_s (Some required) start_time) (self, st) ticks = Return True"
  using assms
proof (induction ticks arbitrary: self st)
  case Nil
  then show ?case by simp
next
  case (Cons tk tks)
  let ?body = "detect_movement_tick timeout_s (Some required) start_time"
  from Cons.prems(1) obtain self1 where u: "update self tk = Inr self1"
    by (auto simp: update_def split: option.splits)
  let ?st1 = "confirm_axes required (axis_diffs self1) st"
  show ?case
  proof (cases "required \<subseteq> snd ?st1")
    case True
    with u have "?body (self, st) tk = Done True"
      unfolding movement_tick_True by blast
    then show ?thesis by simp
  next
    case False
    with u Cons.prems(1) have "?body (self, st) tk = Continue (self1, ?st1)"
      unfolding movement_tick_Continue by simp
    moreover have "run_loop ?body (self1, ?st1) tks = Return True"
      using Cons.prems(1,2) u False by (intro Cons.IH) simp_all
    ultimately show ?thesis by simp
  qed
qed

text \<open>
  C2. For a required axis \<open>a\<close> among \<open>x\<close>, \<open>y\<close>, \<open>z\<close>: on each tick its counter becomes
  the old one plus one when its diff exceeds \<open>MOTION_THRESHOLD\<close>, and \<open>0\<close> otherwise; the
  axis is in the detected set after the tick exactly when it was there before, or the
  new counter is at least \<open>5\<close> and the diff of this tick exceeds \<open>MOTION_THRESHOLD * 1.2\<close>;
  nothing leaves the detected set. Over the ticks of a call, the axis is detected
  exactly when there are five consecutive ticks with the diff above the threshold, the
  fifth above \<open>1.2\<close> times the threshold. A pass returns \<open>True\<close> exactly when, after it,
  the detected set contains the required set, and so does the call: it returns \<open>True\<close>
  only if the detected set of its ticks contains the required set, and it does return
  \<open>True\<close> then, when no read fails and no timeout check fires on these ticks.
\<close>

theorem movement_confirmation:
  assumes "a \<in> required" and "a \<in> {''x'', ''y'', ''z''}"
  shows "(confirm_axes required dv (confirm_count, detected) = (confirm_count', detected') \<longrightarrow>
            confirm_count' a = (if axis_diff a dv > MOTION_THRESHOLD then confirm_count a + 1 else 0)
            \<and> (a \<in> detected' \<longleftrightarrow>
                 a \<in> detected \<or> (confirm_count' a \<ge> 5 \<and> axis_diff a dv > MOTION_THRESHOLD * 1.2))
            \<and> detected \<subseteq> detected')
         \<and> (a \<in> snd (confirm_run required ds) \<longleftrightarrow>
              (\<exists>pre five post. ds = pre @ five @ post \<and> length five = 5
                 \<and> (\<forall>dv\<in>set five. axis_diff a dv > MOTION_THRESHOLD)
                 \<and> axis_diff a (last five) > MOTION_THRESHOLD * 1.2))
         \<and> (detect_movement_tick timeout_s (Some required) start_time
                (self, confirm_count, detected) tk = Done True \<longleftrightarrow>
              (\<exists>self'. update self tk = Inr self'
                 \<and> required \<subseteq> snd (confirm_axes required (axis_diffs self') (confirm_count, detected))))
         \<and> (loop_state (detect_movement_tick timeout_s (Some required) start_time)
                (self, (\<lambda>_. 0), {}) ticks = Some (self', st') \<longrightarrow>
              st' = confirm_run required (diffs_seen self ticks))
         \<and> (required = set (map lower axes) \<longrightarrow>
              (detect_movement timeout_s (Some axes) start_time self ticks = Return True \<longrightarrow>
                 required \<subseteq> snd (confirm_run required (diffs_seen self ticks)))
              \<and> ((\<forall>tk\<in>set ticks. acceleration tk \<noteq> None
                       \<and> \<not> timed_out timeout_s start_time (t_timeout tk))
                   \<and> required \<subseteq> snd (confirm_run required (diffs_seen self ticks)) \<longrightarrow>
                 detect_movement timeout_s (Some axes) start_time self ticks = Return True))"
proof (intro conjI impI)
  assume c: "confirm_axes required dv (confirm_count, detected) = (confirm_count', detected')"
  from confirm_axes_count [OF assms, of dv "(confirm_count, detected)"] c
  show "confirm_count' a = (if axis_diff a dv > MOTION_THRESHOLD then confirm_count a + 1 else 0)"
    by simp
  from confirm_axes_detected [OF assms, of dv "(confirm_count, detected)"] c
  show "a \<in> detected' \<longleftrightarrow>
          a \<in> detected \<or> (confirm_count' a \<ge> 5 \<and> axis_diff a dv > MOTION_THRESHOLD * 1.2)"
    by simp
  from confirm_axes_mono [of "(confirm_count, detected)" required dv] c
  show "detected \<subseteq> detected'"
    by simp
next
  show "a \<in> snd (confirm_run required ds) \<longleftrightarrow>
          (\<exists>pre five post. ds = pre @ five @ post \<and> length five = 5
             \<and> (\<forall>dv\<in>set five. axis_diff a dv > MOTION_THRESHOLD)
             \<and> axis_diff a (last five) > MOTION_THRESHOLD * 1.2)"
    by (rule confirm_run_detected [OF assms])
next
  show "detect_movement_tick timeout_s (Some required) start_time
            (self, confirm_count, detected) tk = Done True \<longleftrightarrow>
          (\<exists>self'. update self tk = Inr self'
             \<and> required \<subseteq> snd (confirm_axes required (axis_diffs self') (confirm_count, detected)))"
    by (rule movement_tick_True)
next
  assume "loop_state (detect_movement_tick timeout_s (Some required) start_time)
            (self, (\<lambda>_. 0), {}) ticks = Some (self', st')"
  then show "st' = confirm_run required (diffs_seen self ticks)"
    unfolding confirm_run_def by (rule movement_loop_state)
next
  assume r: "required = set (map lower axes)"
  with assms(1) have ne: "axes \<noteq> []" by auto
  then have ra: "required_axes (Some axes) = Some required"
    by (simp add: required_axes_def r)
  {
    assume "detect_movement timeout_s (Some axes) start_time self ticks = Return True"
    then show "required \<subseteq> snd (confirm_run required (diffs_seen self ticks))"
      unfolding detect_movement_def ra confirm_run_def by (rule movement_True_confirmed)
  next
    assume h: "(\<forall>tk\<in>set ticks. acceleration tk \<noteq> None
                  \<and> \<not> timed_out timeout_s start_time (t_timeout tk))
               \<and> required \<subseteq> snd (confirm_run required (diffs_seen self ticks))"
    have "\<not> required \<subseteq> snd ((\<lambda>_. 0 :: int), {} :: string set)"
      using assms(1) by auto
    with h show "detect_movement timeout_s (Some axes) start_time self ticks = Return True"
      unfolding detect_movement_def ra confirm_run_def
      by (intro movement_confirmed_True) simp_all
  }
qed

theorem movement_confirmation_witness:
  "''x'' \<in> {''x'', ''y''} \<and> ''x'' \<in> {''x'', ''y'', ''z''}
   \<and> ''x'' \<in> snd (confirm_run {''x'', ''y''}
         [(31 / 100, 0, 0), (31 / 100, 1, 0), (31 / 100, 0, 0), (31 / 100, 0, 0), (37 / 100, 0, 0)])"
proof -
  let ?ds = "[(31 / 100, 0, 0), (31 / 100, 1, 0), (31 / 100, 0, 0), (31 / 100, 0, 0),
               (37 / 100, 0, 0)] :: vec3 list"
  have a: "''x'' \<in> {''x'', ''y''}" and b: "''x'' \<in> {''x'', ''y'', ''z''}"
    by simp_all
  have "?ds = [] @ ?ds @ [] \<and> length ?ds = 5
          \<and> (\<forall>dv\<in>set ?ds. axis_diff ''x'' dv > MOTION_THRESHOLD)
          \<and> axis_diff ''x'' (last ?ds) > MOTION_THRESHOLD * 1.2"
    by (simp add: axis_diff_def MOTION_THRESHOLD_def)
  then have "\<exists>pre five post. ?ds = pre @ five @ post \<and> length five = 5
          \<and> (\<forall>dv\<in>set five. axis_diff ''x'' dv > MOTION_THRESHOLD)
          \<and> axis_diff ''x'' (last five) > MOTION_THRESHOLD * 1.2"
    by blast
  with movement_confirmation [OF a b, where ds = ?ds, THEN conjunct2, THEN conjunct1]
  have "''x'' \<in> snd (confirm_run {''x'', ''y''} ?ds)"
    by blast
  with a b show ?thesis by simp
qed

section \<open>Detecting both directions of each axis\<close>

lemma check_directions_crossed:
  "directions_detected (check_directions axes_set self) = directions_detected self \<union> crossed axes_set self"
  by (auto simp: check_directions_def add_direction_def crossed_def Let_def)

lemma update_directions: "update self tk = Inr self' \<Longrightarrow> directions_detected self' = directions_detected self"
  by (auto simp: update_def split: option.splits)

lemma finite_crossed: "finite (crossed axes_set self)"
  by (simp add: crossed_def)

lemma finite_check: "finite (directions_detected self) \<Longrightarrow> finite (directions_detected (check_directions axes_set self))"
  by (simp add: check_directions_crossed finite_crossed)

lemma directions_after_mono: "directions_detected self \<subseteq> directions_after axes_set self ticks"
proof (induction ticks arbitrary: self)
  case Nil
  show ?case by simp
next
  case (Cons tk tks)
  show ?case
  proof (cases "update self tk")
    case (Inl e)
    then show ?thesis by simp
  next
    case (Inr self')
    have "directions_detected self \<subseteq> directions_detected (check_directions axes_set self')"
      using update_directions [OF Inr] by (auto simp: check_directions_crossed)
    also have "\<dots> \<subseteq> directions_after axes_set (check_directions axes_set self') tks"
      by (rule Cons.IH)
    finally show ?thesis by (simp add: Inr)
  qed
qed

lemma directions_after_finite:
  "finite (directions_detected self) \<Longrightarrow> finite (directions_after axes_set self ticks)"
proof (induction ticks arbitrary: self)
  case Nil
  then show ?case by simp
next
  case (Cons tk tks)
  show ?case
  proof (cases "update self tk")
    case (Inl e)
    with Cons.prems show ?thesis by simp
  next
    case (Inr self')
    with Cons.prems have "finite (directions_detected (check_directions axes_set self'))"
      by (simp add: finite_check update_directions)
    from Cons.IH [OF this] Inr show ?thesis by simp
  qed
qed

lemma six_tick_True:
  "detect_all_six_directions_tick timeout_s axes_set n start_time self tk = Done True \<longleftrightarrow>
     (\<exists>self'. update self tk = Inr self'
        \<and> n \<le> card (directions_detected (check_directions axes_set self')))"
  by (auto simp: detect_all_six_directions_tick_def Let_def split: sum.splits)

lemma six_tick_False:
  "detect_all_six_directions_tick timeout_s axes_set n start_time self tk = Done False \<longleftrightarrow>
     (\<exists>self'. update self tk = Inr self'
        \<and> \<not> n \<le> card (directions_detected (check_directions axes_set self'))
        \<and> timed_out timeout_s start_time (t_timeout tk))"
  by (auto simp: detect_all_six_directions_tick_def Let_def split: sum.splits)

lemma six_tick_Continue:
  "detect_all_six_directions_tick timeout_s axes_set n start_time self tk = Continue s' \<longleftrightarrow>
     (\<exists>self'. update self tk = Inr self' \<and> s' = check_directions axes_set self'
        \<and> \<not> n \<le> card (directions_detected s')
        \<and> \<not> timed_out timeout_s start_time (t_timeout tk))"
  by (auto simp: detect_all_six_directions_tick_def Let_def split: sum.splits)

lemma six_True_card:
  assumes "run_loop (detect_all_six_directions_tick timeout_s axes_set n start_time) self ticks
             = Return True"
    and "finite (directions_detected self)"
  shows "n \<le> card (directions_after axes_set self ticks)"
  using assms
proof (induction ticks arbitrary: self)
  case Nil
  then show ?case by simp
next
  case (Cons tk tks)
  let ?body = "detect_all_six_directions_tick timeout_s axes_set n start_time"
  show ?case
  proof (cases "?body self tk")
    case (Done r)
    with Cons.prems(1) have "?body self tk = Done True" by simp
    then obtain self' where u: "update self tk = Inr self'"
      and c: "n \<le> card (directions_detected (check_directions axes_set self'))"
      unfolding six_tick_True by blast
    have "finite (directions_after axes_set (check_directions axes_set self') tks)"
      using Cons.prems(2) u by (intro directions_after_finite finite_check) (simp add: update_directions)
    then have "card (directions_detected (check_directions axes_set self'))
                 \<le> card (directions_after axes_set (check_directions axes_set self') tks)"
      by (intro card_mono directions_after_mono)
    with c u show ?thesis by simp
  next
    case (Fail e)
    with Cons.prems(1) show ?thesis by simp
  next
    case (Continue s')
    then obtain self' where u: "update self tk = Inr self'" and s': "s' = check_directions axes_set self'"
      unfolding six_tick_Continue by blast
    have "finite (directions_detected s')"
      using Cons.prems(2) u s' by (simp add: finite_check update_directions)
    moreover from Cons.prems(1) Continue have "run_loop ?body s' tks = Return True" by simp
    ultimately have "n \<le> card (directions_after axes_set s' tks)"
      by (intro Cons.IH)
    with u s' show ?thesis by simp
  qed
qed

lemma six_card_True:
  assumes "\<forall>tk\<in>set ticks. acceleration tk \<noteq> None \<and> \<not> timed_out timeout_s start_time (t_timeout tk)"
    and "ticks \<noteq> []"
    and "n \<le> card (directions_after axes_set self ticks)"
  shows "run_loop (detect_all_six_directions_tick timeout_s axes_set n start_time) self ticks
           = Return True"
  using assms
proof (induction ticks arbitrary: self)
  case Nil
  then show ?case by simp
next
  case (Cons tk tks)
  let ?body = "detect_all_six_directions_tick timeout_s axes_set n start_time"
  from Cons.prems(1) obtain self' where u: "update self tk = Inr self'"
    by (auto simp: update_def split: option.splits)
  let ?s' = "check_directions axes_set self'"
  show ?case
  proof (cases "n \<le> card (directions_detected ?s')")
    case True
    with u have "?body self tk = Done True"
      unfolding six_tick_True by blast
    then show ?thesis by simp
  next
    case False
    with u Cons.prems(1) have c: "?body self tk = Continue ?s'"
      unfolding six_tick_Continue by simp
    from Cons.prems(3) u have n: "n \<le> card (directions_after axes_set ?s' tks)" by simp
    with False have "tks \<noteq> []" by auto
    with Cons.prems(1) n have "run_loop ?body ?s' tks = Return True"
      by (intro Cons.IH) simp_all
    with c show ?thesis by simp
  qed
qed

lemma six_short_False:
  assumes "\<forall>tk\<in>set ticks. acceleration tk \<noteq> None"
    and "\<exists>tk\<in>set ticks. timed_out timeout_s start_time (t_timeout tk)"
    and "card (directions_after axes_set self ticks) < n"
    and "finite (directions_detected self)"
  shows "run_loop (detect_all_six_directions_tick timeout_s axes_set n start_time) self ticks
           = Return False"
  using assms
proof (induction ticks arbitrary: self)
  case Nil
  then show ?case by simp
next
  case (Cons tk tks)
  let ?body = "detect_all_six_directions_tick timeout_s axes_set n start_time"
  from Cons.prems(1) obtain self' where u: "update self tk = Inr self'"
    by (auto simp: update_def split: option.splits)
  let ?s' = "check_directions axes_set self'"
  have fin: "finite (directions_detected ?s')"
    using Cons.prems(4) u by (simp add: finite_check update_directions)
  then have "finite (directions_after axes_set ?s' tks)"
    by (rule directions_after_finite)
  then have "card (directions_detected ?s') \<le> card (directions_after axes_set ?s' tks)"
    by (intro card_mono directions_after_mono)
  with Cons.prems(3) u have less: "\<not> n \<le> card (directions_detected ?s')" by simp
  show ?case
  proof (cases "timed_out timeout_s start_time (t_timeout tk)")
    case True
    with u less have "?body self tk = Done False"
      unfolding six_tick_False by simp
    then show ?thesis by simp
  next
    case False
    with u less have c: "?body self tk = Continue ?s'"
      unfolding six_tick_Continue by simp
    from False Cons.prems(2) have "\<exists>tk\<in>set tks. timed_out timeout_s start_time (t_timeout tk)"
      by simp
    with Cons.prems(1,3) u fin have "run_loop ?body ?s' tks = Return False"
      by (intro Cons.IH) simp_all
    with c show ?thesis by simp
  qed
qed

lemma directions_after_within:
  assumes "directions_detected self \<subseteq> A" "\<And>s. crossed axes_set s \<subseteq> A"
  shows "directions_after axes_set self ticks \<subseteq> A"
  using assms(1)
proof (induction ticks arbitrary: self)
  case Nil
  then show ?case by simp
next
  case (Cons tk tks)
  show ?case
  proof (cases "update self tk")
    case (Inl e)
    with Cons.prems show ?thesis by simp
  next
    case (Inr self')
    have "directions_detected (check_directions axes_set self') \<subseteq> A"
      using Cons.prems assms(2) [of self'] update_directions [OF Inr]
      by (simp add: check_directions_crossed)
    from Cons.IH [OF this] Inr show ?thesis by simp
  qed
qed

lemma crossed_xy: "crossed {''x'', ''y''} s \<subseteq> {''+X'', ''-X'', ''+Y'', ''-Y''}"
  by (auto simp: crossed_def split: if_splits)


text \<open>
  C3. On every tick the checks add to the detected set exactly the tokens whose test
  holds on the filtered state (both signs of each requested axis against
  \<open>TILT_THRESHOLD\<close>, on the filtered value for X and Y and on the filtered value minus
  the baseline for Z) and remove nothing. A pass returns \<open>True\<close> exactly when the number
  of tokens has reached the required count; the call, with the count twice the number
  of distinct requested axes, returns \<open>True\<close> only if the tokens of its ticks are that
  many, and does so when no read fails and no timeout check fires; with fewer tokens,
  it returns \<open>False\<close> once a timeout check fires. For the axes \<open>x\<close> and \<open>y\<close> a result
  \<open>True\<close> means that all four of \<open>+X\<close>, \<open>-X\<close>, \<open>+Y\<close>, \<open>-Y\<close> were detected.
\<close>

theorem all_directions_tokens:
  "directions_detected (check_directions axes_set self)
     = directions_detected self \<union> crossed axes_set self
   \<and> (detect_all_six_directions_tick timeout_s axes_set n start_time self tk = Done True \<longleftrightarrow>
        (\<exists>self'. update self tk = Inr self'
           \<and> n \<le> card (directions_detected (check_directions axes_set self'))))
   \<and> (axes_set = set (map lower axes) \<and> self0 = self\<lparr>directions_detected := {}\<rparr> \<longrightarrow>
        (detect_all_six_directions timeout_s axes start_time self ticks = Return True \<longrightarrow>
           2 * card axes_set \<le> card (directions_after axes_set self0 ticks))
        \<and> ((\<forall>tk\<in>set ticks. acceleration tk \<noteq> None
                 \<and> \<not> timed_out timeout_s start_time (t_timeout tk))
             \<and> ticks \<noteq> [] \<and> 2 * card axes_set \<le> card (directions_after axes_set self0 ticks) \<longrightarrow>
           detect_all_six_directions timeout_s axes start_time self ticks = Return True)
        \<and> ((\<forall>tk\<in>set ticks. acceleration tk \<noteq> None)
             \<and> (\<exists>tk\<in>set ticks. timed_out timeout_s start_time (t_timeout tk))
             \<and> card (directions_after axes_set self0 ticks) < 2 * card axes_set \<longrightarrow>
           detect_all_six_directions timeout_s axes start_time self ticks = Return False))
   \<and> (detect_all_six_directions timeout_s [''x'', ''y''] start_time self ticks = Return True \<longrightarrow>
        directions_after {''x'', ''y''} (self\<lparr>directions_detected := {}\<rparr>) ticks
          = {''+X'', ''-X'', ''+Y'', ''-Y''})"
proof (intro conjI impI)
  show "directions_detected (check_directions axes_set self)
          = directions_detected self \<union> crossed axes_set self"
    by (rule check_directions_crossed)
  show "detect_all_six_directions_tick timeout_s axes_set n start_time self tk = Done True \<longleftrightarrow>
          (\<exists>self'. update self tk = Inr self'
             \<and> n \<le> card (directions_detected (check_directions axes_set self')))"
    by (rule six_tick_True)
next
  assume a: "axes_set = set (map lower axes) \<and> self0 = self\<lparr>directions_detected := {}\<rparr>"
  assume "detect_all_six_directions timeout_s axes start_time self ticks = Return True"
  with a have "run_loop (detect_all_six_directions_tick timeout_s axes_set (card axes_set * 2) start_time)
                 self0 ticks = Return True"
    by (simp add: detect_all_six_directions_def Let_def)
  moreover from a have "finite (directions_detected self0)" by simp
  ultimately have "card axes_set * 2 \<le> card (directions_after axes_set self0 ticks)"
    by (rule six_True_card)
  then show "2 * card axes_set \<le> card (directions_after axes_set self0 ticks)"
    by (simp add: mult.commute)
next
  assume a: "axes_set = set (map lower axes) \<and> self0 = self\<lparr>directions_detected := {}\<rparr>"
  assume h: "(\<forall>tk\<in>set ticks. acceleration tk \<noteq> None
                 \<and> \<not> timed_out timeout_s start_time (t_timeout tk))
             \<and> ticks \<noteq> [] \<and> 2 * card axes_set \<le> card (directions_after axes_set self0 ticks)"
  then have "run_loop (detect_all_six_directions_tick timeout_s axes_set (card axes_set * 2) start_time)
                 self0 ticks = Return True"
    by (intro six_card_True) (simp_all add: mult.commute)
  with a show "detect_all_six_directions timeout_s axes start_time self ticks = Return True"
    by (simp add: detect_all_six_directions_def Let_def)
next
  assume a: "axes_set = set (map lower axes) \<and> self0 = self\<lparr>directions_detected := {}\<rparr>"
  assume h: "(\<forall>tk\<in>set ticks. acceleration tk \<noteq> None)
             \<and> (\<exists>tk\<in>set ticks. timed_out timeout_s start_time (t_timeout tk))
             \<and> card (directions_after axes_set self0 ticks) < 2 * card axes_set"
  moreover from a have "finite (directions_detected self0)" by simp
  ultimately
  have "run_loop (detect_all_six_directions_tick timeout_s axes_set (card axes_set * 2) start_time)
                 self0 ticks = Return False"
    by (intro six_short_False) (simp_all add: mult.commute)
  with a show "detect_all_six_directions timeout_s axes start_time self ticks = Return False"
    by (simp add: detect_all_six_directions_def Let_def)
next
  let ?self0 = "self\<lparr>directions_detected := {}\<rparr>"
  let ?four = "{''+X'', ''-X'', ''+Y'', ''-Y''}"
  assume "detect_all_six_directions timeout_s [''x'', ''y''] start_time self ticks = Return True"
  then have "run_loop (detect_all_six_directions_tick timeout_s {''x'', ''y''} 4 start_time)
               ?self0 ticks = Return True"
    by (simp add: detect_all_six_directions_def Let_def lower_def lower_char_def)
  moreover have "finite (directions_detected ?self0)" by simp
  ultimately have "4 \<le> card (directions_after {''x'', ''y''} ?self0 ticks)"
    by (rule six_True_card)
  moreover have "directions_after {''x'', ''y''} ?self0 ticks \<subseteq> ?four"
    by (rule directions_after_within) (simp, rule crossed_xy)
  moreover have "card ?four = 4" by simp
  ultimately show "directions_after {''x'', ''y''} ?self0 ticks = ?four"
    by (intro card_seteq) simp_all
qed

theorem all_directions_tokens_witness:
  "directions_after {''x'', ''y''} rest_manager
      [plain_tick 1 (Some (10, 0, 0)), plain_tick 2 (Some (- 20, 0, 0)), plain_tick 6 (Some (0, 10, 0))]
     = {''+X'', ''-X'', ''+Y''}
   \<and> detect_all_six_directions (Some 5) [''X'', ''y''] 0 rest_manager
      [plain_tick 1 (Some (10, 0, 0)), plain_tick 2 (Some (- 20, 0, 0)), plain_tick 6 (Some (0, 10, 0))]
     = Return False"
proof -
  let ?ticks = "[plain_tick 1 (Some (10, 0, 0)), plain_tick 2 (Some (- 20, 0, 0)),
                 plain_tick 6 (Some (0, 10, 0))]"
  have d: "directions_after {''x'', ''y''} rest_manager ?ticks = {''+X'', ''-X'', ''+Y''}"
    by (simp add: plain_tick_def rest_manager_def update_def ema_filter_def ACCEL_EMA_ALPHA_def
        check_directions_def add_direction_def TILT_THRESHOLD_def Let_def insert_commute)
  have hyp: "{''x'', ''y''} = set (map lower [''X'', ''y''])
             \<and> rest_manager = rest_manager\<lparr>directions_detected := {}\<rparr>"
    by (simp add: lower_def lower_char_def rest_manager_def)
  have p1: "\<forall>tk\<in>set ?ticks. acceleration tk \<noteq> None"
    by (simp add: plain_tick_def)
  have p2: "\<exists>tk\<in>set ?ticks. timed_out (Some 5) 0 (t_timeout tk)"
    by (simp add: plain_tick_def timed_out_def)
  have p3: "card (directions_after {''x'', ''y''} rest_manager ?ticks) < 2 * card {''x'', ''y''}"
    unfolding d by simp
  have "detect_all_six_directions (Some 5) [''X'', ''y''] 0 rest_manager ?ticks = Return False"
    using all_directions_tokens [where axes_set = "{''x'', ''y''}" and axes = "[''X'', ''y'']"
        and self = rest_manager and ?self0.0 = rest_manager and ticks = ?ticks
        and timeout_s = "Some 5" and start_time = 0,
        THEN conjunct2, THEN conjunct2, THEN conjunct1, THEN mp, OF hyp,
        THEN conjunct2, THEN conjunct2] p1 p2 p3
    by blast
  with d show ?thesis by simp
qed

section \<open>Double click\<close>

lemma run_loop_prefix_Return:
  "run_loop body s pre = Return r \<Longrightarrow> run_loop body s (pre @ rest) = Return r"
  by (induction pre arbitrary: s) (auto split: step.splits)

lemma run_loop_progress:
  assumes "\<And>s tk. tk \<in> set ticks \<Longrightarrow> body s tk = Done r \<or> (\<exists>s'. body s tk = Continue s')"
  shows "run_loop body s ticks = Return r \<or> (\<exists>s'. loop_state body s ticks = Some s')"
  using assms
proof (induction ticks arbitrary: s)
  case Nil
  show ?case by simp
next
  case (Cons tk tks)
  from Cons.prems [of tk s] consider "body s tk = Done r" | s' where "body s tk = Continue s'"
    by auto
  then show ?case
  proof cases
    case 1
    then show ?thesis by simp
  next
    case 2
    from Cons.IH [of s'] Cons.prems 2 show ?thesis by simp
  qed
qed

lemma last_click_Nil: "last_click fell [] = None"
  by (simp add: last_click_def)

lemma last_click_Cons:
  "last_click fell (tk # tks) =
     (case last_click fell tks of
        Some t \<Rightarrow> Some t
      | None \<Rightarrow> if fell tk then Some (t_now tk) else None)"
  by (cases "rev (filter fell tks)") (simp_all add: last_click_def)

lemma last_click_Some:
  "last_click fell ticks = Some t \<Longrightarrow> \<exists>p\<in>set ticks. fell p \<and> t_now p = t"
proof (induction ticks)
  case Nil
  then show ?case by (simp add: last_click_Nil)
next
  case (Cons tk tks)
  then show ?case
    by (auto simp: last_click_Cons split: option.splits if_splits)
qed

lemma last_click_latest:
  assumes "sorted (map t_now ticks)" "p \<in> set ticks" "fell p"
  shows "\<exists>t. last_click fell ticks = Some t \<and> t_now p \<le> t"
  using assms
proof (induction ticks)
  case Nil
  then show ?case by simp
next
  case (Cons tk tks)
  show ?case
  proof (cases "last_click fell tks")
    case None
    have "\<not> (\<exists>q\<in>set tks. fell q)"
    proof
      assume "\<exists>q\<in>set tks. fell q"
      then obtain q where "q \<in> set tks" "fell q" by blast
      with Cons.IH [of ] Cons.prems(1) None show False
        by (auto simp: last_click_def filter_empty_conv split: list.splits)
    qed
    with Cons.prems have "p = tk" by auto
    with None Cons.prems(3) show ?thesis by (simp add: last_click_Cons)
  next
    case (Some t)
    then obtain q where q: "q \<in> set tks" "fell q" "t_now q = t"
      by (blast dest: last_click_Some)
    show ?thesis
    proof (cases "p = tk")
      case True
      with Cons.prems(1) q have "t_now p \<le> t" by auto
      with Some show ?thesis by (simp add: last_click_Cons)
    next
      case False
      with Cons.prems have "p \<in> set tks" "sorted (map t_now tks)" by auto
      from Cons.IH [OF this(2,1) Cons.prems(3)] Some show ?thesis
        by (simp add: last_click_Cons)
    qed
  qed
qed

lemma click_tick_True:
  "detect_double_click_button_tick timeout_s start_time (self, last_left_click, last_right_click) tk
       = Done True \<longleftrightarrow>
     acceleration tk \<noteq> None
     \<and> ((left_fell tk \<and> (\<exists>t. last_left_click = Some t \<and> t_now tk - t \<le> 0.5))
        \<or> (right_fell tk \<and> (\<exists>t. last_right_click = Some t \<and> t_now tk - t \<le> 0.5)))"
  by (auto simp: detect_double_click_button_tick_def Let_def update_def second_within_def
      DOUBLE_CLICK_WINDOW_def split: option.splits)

lemma click_tick_Continue:
  "detect_double_click_button_tick timeout_s start_time (self, last_left_click, last_right_click) tk
       = Continue (self', last_left_click', last_right_click') \<longleftrightarrow>
     update self tk = Inr self'
     \<and> \<not> (left_fell tk \<and> (\<exists>t. last_left_click = Some t \<and> t_now tk - t \<le> 0.5))
     \<and> \<not> (right_fell tk \<and> (\<exists>t. last_right_click = Some t \<and> t_now tk - t \<le> 0.5))
     \<and> \<not> timed_out timeout_s start_time (t_timeout tk)
     \<and> last_left_click' = (if left_fell tk then Some (t_now tk) else last_left_click)
     \<and> last_right_click' = (if right_fell tk then Some (t_now tk) else last_right_click)"
  by (auto simp: detect_double_click_button_tick_def Let_def second_within_def
      DOUBLE_CLICK_WINDOW_def split: option.splits sum.splits)

lemma click_loop_state:
  "loop_state (detect_double_click_button_tick timeout_s start_time) (self, ll, lr) pre
       = Some (self', ll', lr') \<Longrightarrow>
     ll' = (case last_click left_fell pre of None \<Rightarrow> ll | Some t \<Rightarrow> Some t)
     \<and> lr' = (case last_click right_fell pre of None \<Rightarrow> lr | Some t \<Rightarrow> Some t)"
proof (induction pre arbitrary: self ll lr)
  case Nil
  then show ?case by (simp add: last_click_Nil)
next
  case (Cons tk tks)
  let ?body = "detect_double_click_button_tick timeout_s start_time"
  from Cons.prems obtain s1 where c: "?body (self, ll, lr) tk = Continue s1"
    and l: "loop_state ?body s1 tks = Some (self', ll', lr')"
    by (auto split: step.splits)
  obtain self1 ll1 lr1 where s1: "s1 = (self1, ll1, lr1)" by (cases s1) auto
  from c [unfolded s1 click_tick_Continue]
  have ll1: "ll1 = (if left_fell tk then Some (t_now tk) else ll)"
    and lr1: "lr1 = (if right_fell tk then Some (t_now tk) else lr)"
    by simp_all
  from Cons.IH [OF l [unfolded s1]] ll1 lr1 show ?case
    by (auto simp: last_click_Cons split: option.splits)
qed


lemma click_progress:
  assumes "\<forall>tk\<in>set ticks. acceleration tk \<noteq> None \<and> \<not> timed_out timeout_s start_time (t_timeout tk)"
  shows "run_loop (detect_double_click_button_tick timeout_s start_time) s ticks = Return True
         \<or> (\<exists>s'. loop_state (detect_double_click_button_tick timeout_s start_time) s ticks = Some s')"
proof (rule run_loop_progress)
  fix s :: click_state and tk :: tick
  assume "tk \<in> set ticks"
  with assms have "acceleration tk \<noteq> None" "\<not> timed_out timeout_s start_time (t_timeout tk)"
    by simp_all
  then show "detect_double_click_button_tick timeout_s start_time s tk = Done True
             \<or> (\<exists>s'. detect_double_click_button_tick timeout_s start_time s tk = Continue s')"
    by (cases s) (auto simp: detect_double_click_button_tick_def Let_def update_def
        split: option.splits)
qed

lemma click_pair_True:
  assumes ok: "\<forall>tk\<in>set ticks. acceleration tk \<noteq> None
                 \<and> \<not> timed_out timeout_s start_time (t_timeout tk)"
    and mono: "sorted (map t_now ticks)"
    and split: "ticks = pre @ tk # post"
    and pair: "(left_fell tk \<and> (\<exists>p\<in>set pre. left_fell p \<and> t_now tk - t_now p \<le> 0.5))
               \<or> (right_fell tk \<and> (\<exists>p\<in>set pre. right_fell p \<and> t_now tk - t_now p \<le> 0.5))"
  shows "run_loop (detect_double_click_button_tick timeout_s start_time) (self, None, None) ticks
           = Return True"
proof -
  let ?body = "detect_double_click_button_tick timeout_s start_time"
  from ok split have okpre: "\<forall>tk\<in>set pre. acceleration tk \<noteq> None
      \<and> \<not> timed_out timeout_s start_time (t_timeout tk)"
    by simp
  from mono split have monopre: "sorted (map t_now pre)"
    by (simp add: sorted_append)
  from click_progress [OF okpre, of "(self, None, None)"]
  consider "run_loop ?body (self, None, None) pre = Return True"
    | s' where "loop_state ?body (self, None, None) pre = Some s'"
    by blast
  then show ?thesis
  proof cases
    case 1
    then show ?thesis unfolding split by (rule run_loop_prefix_Return)
  next
    case 2
    obtain self' ll lr where s': "s' = (self', ll, lr)" by (cases s') auto
    from click_loop_state [OF 2 [unfolded s']]
    have ll: "ll = last_click left_fell pre" and lr: "lr = last_click right_fell pre"
      by (simp_all split: option.splits)
    from ok split have acc: "acceleration tk \<noteq> None" by simp
    have "?body (self', ll, lr) tk = Done True"
    proof -
      from pair consider
        p where "left_fell tk" "p \<in> set pre" "left_fell p" "t_now tk - t_now p \<le> 0.5"
        | p where "right_fell tk" "p \<in> set pre" "right_fell p" "t_now tk - t_now p \<le> 0.5"
        by blast
      then show ?thesis
      proof cases
        case 1
        from last_click_latest [OF monopre 1(2), of left_fell] 1(3) obtain t
          where "last_click left_fell pre = Some t" "t_now p \<le> t"
          by blast
        with 1 ll acc show ?thesis
          unfolding click_tick_True by auto
      next
        case 2
        from last_click_latest [OF monopre 2(2), of right_fell] 2(3) obtain t
          where "last_click right_fell pre = Some t" "t_now p \<le> t"
          by blast
        with 2 lr acc show ?thesis
          unfolding click_tick_True by auto
      qed
    qed
    with 2 s' show ?thesis
      unfolding split by (simp add: run_loop_append)
  qed
qed

text \<open>
  C4. A pass of \<open>detect_double_click_button\<close> returns \<open>True\<close> exactly when a button
  has a \<open>fell\<close> edge and the pending click of that same button is at most \<open>0.5\<close> before
  \<open>now\<close>; otherwise a button with a \<open>fell\<close> edge gets \<open>now\<close> as its pending click, and
  the other pending click is untouched: in particular a second click that comes more
  than \<open>0.5\<close> after the first does not succeed and becomes the pending click. The
  pending click of a button is its most recent edge in the call. So the call returns
  \<open>True\<close> only if some button has two edges at most \<open>0.5\<close> apart, and it does return
  \<open>True\<close> when a button has two such edges, the clock is monotonic, no read fails and
  no timeout check fires.
\<close>

theorem double_click_same_button:
  "(detect_double_click_button_tick timeout_s start_time (self, last_left_click, last_right_click) tk
        = Done True \<longleftrightarrow>
      acceleration tk \<noteq> None
      \<and> ((left_fell tk \<and> (\<exists>t. last_left_click = Some t \<and> t_now tk - t \<le> 0.5))
         \<or> (right_fell tk \<and> (\<exists>t. last_right_click = Some t \<and> t_now tk - t \<le> 0.5))))
   \<and> (detect_double_click_button_tick timeout_s start_time (self, last_left_click, last_right_click) tk
        = Continue (self', last_left_click', last_right_click') \<longrightarrow>
      last_left_click' = (if left_fell tk then Some (t_now tk) else last_left_click)
      \<and> last_right_click' = (if right_fell tk then Some (t_now tk) else last_right_click))
   \<and> (acceleration tk \<noteq> None \<and> \<not> timed_out timeout_s start_time (t_timeout tk)
        \<and> left_fell tk \<and> last_left_click = Some t \<and> t_now tk - t > 0.5 \<and> \<not> right_fell tk \<longrightarrow>
      (\<exists>self'. detect_double_click_button_tick timeout_s start_time
                  (self, last_left_click, last_right_click) tk
                = Continue (self', Some (t_now tk), last_right_click)))
   \<and> (acceleration tk \<noteq> None \<and> \<not> timed_out timeout_s start_time (t_timeout tk)
        \<and> right_fell tk \<and> last_right_click = Some t \<and> t_now tk - t > 0.5 \<and> \<not> left_fell tk \<longrightarrow>
      (\<exists>self'. detect_double_click_button_tick timeout_s start_time
                  (self, last_left_click, last_right_click) tk
                = Continue (self', last_left_click, Some (t_now tk))))
   \<and> (loop_state (detect_double_click_button_tick timeout_s start_time) (self, None, None) pre
        = Some (self', last_left_click', last_right_click') \<longrightarrow>
      last_left_click' = last_click left_fell pre \<and> last_right_click' = last_click right_fell pre)
   \<and> (detect_double_click_button timeout_s start_time self ticks = Return True \<longrightarrow>
      (\<exists>before second later. ticks = before @ second # later
         \<and> ((left_fell second
               \<and> (\<exists>first\<in>set before. left_fell first \<and> t_now second - t_now first \<le> 0.5))
            \<or> (right_fell second
               \<and> (\<exists>first\<in>set before. right_fell first \<and> t_now second - t_now first \<le> 0.5)))))
   \<and> ((\<forall>tk\<in>set ticks. acceleration tk \<noteq> None
            \<and> \<not> timed_out timeout_s start_time (t_timeout tk))
        \<and> sorted (map t_now ticks)
        \<and> ticks = before @ second # later
        \<and> ((left_fell second
              \<and> (\<exists>first\<in>set before. left_fell first \<and> t_now second - t_now first \<le> 0.5))
           \<or> (right_fell second
              \<and> (\<exists>first\<in>set before. right_fell first \<and> t_now second - t_now first \<le> 0.5))) \<longrightarrow>
      detect_double_click_button timeout_s start_time self ticks = Return True)"
proof (intro conjI impI)
  show "detect_double_click_button_tick timeout_s start_time (self, last_left_click, last_right_click) tk
        = Done True \<longleftrightarrow>
      acceleration tk \<noteq> None
      \<and> ((left_fell tk \<and> (\<exists>t. last_left_click = Some t \<and> t_now tk - t \<le> 0.5))
         \<or> (right_fell tk \<and> (\<exists>t. last_right_click = Some t \<and> t_now tk - t \<le> 0.5)))"
    by (rule click_tick_True)
next
  assume c: "detect_double_click_button_tick timeout_s start_time
      (self, last_left_click, last_right_click) tk
        = Continue (self', last_left_click', last_right_click')"
  from c [unfolded click_tick_Continue]
  show "last_left_click' = (if left_fell tk then Some (t_now tk) else last_left_click)"
    and "last_right_click' = (if right_fell tk then Some (t_now tk) else last_right_click)"
    by simp_all
next
  assume a: "acceleration tk \<noteq> None \<and> \<not> timed_out timeout_s start_time (t_timeout tk)
        \<and> left_fell tk \<and> last_left_click = Some t \<and> t_now tk - t > 0.5 \<and> \<not> right_fell tk"
  then obtain self' where "update self tk = Inr self'"
    by (auto simp: update_def split: option.splits)
  with a have "detect_double_click_button_tick timeout_s start_time
                  (self, last_left_click, last_right_click) tk
                = Continue (self', Some (t_now tk), last_right_click)"
    unfolding click_tick_Continue by auto
  then show "\<exists>self'. detect_double_click_button_tick timeout_s start_time
                  (self, last_left_click, last_right_click) tk
                = Continue (self', Some (t_now tk), last_right_click)"
    by blast
next
  assume a: "acceleration tk \<noteq> None \<and> \<not> timed_out timeout_s start_time (t_timeout tk)
        \<and> right_fell tk \<and> last_right_click = Some t \<and> t_now tk - t > 0.5 \<and> \<not> left_fell tk"
  then obtain self' where "update self tk = Inr self'"
    by (auto simp: update_def split: option.splits)
  with a have "detect_double_click_button_tick timeout_s start_time
                  (self, last_left_click, last_right_click) tk
                = Continue (self', last_left_click, Some (t_now tk))"
    unfolding click_tick_Continue by auto
  then show "\<exists>self'. detect_double_click_button_tick timeout_s start_time
                  (self, last_left_click, last_right_click) tk
                = Continue (self', last_left_click, Some (t_now tk))"
    by blast
next
  assume l: "loop_state (detect_double_click_button_tick timeout_s start_time) (self, None, None) pre
        = Some (self', last_left_click', last_right_click')"
  from click_loop_state [OF l]
  show "last_left_click' = last_click left_fell pre"
    and "last_right_click' = last_click right_fell pre"
    by (simp_all split: option.splits)
next
  let ?body = "detect_double_click_button_tick timeout_s start_time"
  assume "detect_double_click_button timeout_s start_time self ticks = Return True"
  then obtain before second later s' where t: "ticks = before @ second # later"
    and l: "loop_state ?body (self, None, None) before = Some s'"
    and d: "?body s' second = Done True"
    unfolding detect_double_click_button_def by (blast dest: run_loop_Return)
  obtain self' ll lr where s': "s' = (self', ll, lr)" by (cases s') auto
  from click_loop_state [OF l [unfolded s']]
  have ll: "ll = last_click left_fell before" and lr: "lr = last_click right_fell before"
    by (simp_all split: option.splits)
  from d [unfolded s' click_tick_True] consider
    tl where "left_fell second" "ll = Some tl" "t_now second - tl \<le> 0.5"
    | tr where "right_fell second" "lr = Some tr" "t_now second - tr \<le> 0.5"
    by blast
  then have "(left_fell second
               \<and> (\<exists>first\<in>set before. left_fell first \<and> t_now second - t_now first \<le> 0.5))
            \<or> (right_fell second
               \<and> (\<exists>first\<in>set before. right_fell first \<and> t_now second - t_now first \<le> 0.5))"
  proof cases
    case 1
    with ll last_click_Some [of left_fell before tl] show ?thesis by auto
  next
    case 2
    with lr last_click_Some [of right_fell before tr] show ?thesis by auto
  qed
  with t show "\<exists>before second later. ticks = before @ second # later
         \<and> ((left_fell second
               \<and> (\<exists>first\<in>set before. left_fell first \<and> t_now second - t_now first \<le> 0.5))
            \<or> (right_fell second
               \<and> (\<exists>first\<in>set before. right_fell first \<and> t_now second - t_now first \<le> 0.5)))"
    by blast
next
  assume "(\<forall>tk\<in>set ticks. acceleration tk \<noteq> None
            \<and> \<not> timed_out timeout_s start_time (t_timeout tk))
        \<and> sorted (map t_now ticks)
        \<and> ticks = before @ second # later
        \<and> ((left_fell second
              \<and> (\<exists>first\<in>set before. left_fell first \<and> t_now second - t_now first \<le> 0.5))
           \<or> (right_fell second
              \<and> (\<exists>first\<in>set before. right_fell first \<and> t_now second - t_now first \<le> 0.5)))"
  then have ok: "\<forall>tk\<in>set ticks. acceleration tk \<noteq> None
            \<and> \<not> timed_out timeout_s start_time (t_timeout tk)"
    and mono: "sorted (map t_now ticks)"
    and split: "ticks = before @ second # later"
    and pair: "(left_fell second
              \<and> (\<exists>first\<in>set before. left_fell first \<and> t_now second - t_now first \<le> 0.5))
           \<or> (right_fell second
              \<and> (\<exists>first\<in>set before. right_fell first \<and> t_now second - t_now first \<le> 0.5))"
    by blast+
  show "detect_double_click_button timeout_s start_time self ticks = Return True"
    unfolding detect_double_click_button_def
    by (rule click_pair_True [OF ok mono split pair])
qed


theorem double_click_same_button_witness:
  "detect_double_click_button None 0 rest_manager
      [left_click 1, plain_tick (6 / 5) (Some (0, 0, 0)), left_click (7 / 5)] = Return True
   \<and> detect_double_click_button None 0 rest_manager
      [left_click 1, right_click (11 / 10), plain_tick 2 (Some (0, 0, 0))] = Running
   \<and> detect_double_click_button None 0 rest_manager
      [right_click 1, right_click (8 / 5), right_click 2] = Return True"
proof -
  let ?ticks = "[left_click 1, plain_tick (6 / 5) (Some (0, 0, 0)), left_click (7 / 5)]"
  have ok: "\<forall>tk\<in>set ?ticks. acceleration tk \<noteq> None \<and> \<not> timed_out None 0 (t_timeout tk)"
    by (simp add: left_click_def plain_tick_def timed_out_def)
  have mono: "sorted (map t_now ?ticks)"
    by (simp add: left_click_def plain_tick_def)
  have split: "?ticks = [left_click 1, plain_tick (6 / 5) (Some (0, 0, 0))] @ left_click (7 / 5) # []"
    by simp
  have "left_fell (left_click 1) \<and> t_now (left_click (7 / 5)) - t_now (left_click 1) \<le> 0.5"
    by (simp add: left_click_def plain_tick_def)
  then have pair: "(left_fell (left_click (7 / 5))
        \<and> (\<exists>first\<in>set [left_click 1, plain_tick (6 / 5) (Some (0, 0, 0))].
              left_fell first \<and> t_now (left_click (7 / 5)) - t_now first \<le> 0.5))
      \<or> (right_fell (left_click (7 / 5))
        \<and> (\<exists>first\<in>set [left_click 1, plain_tick (6 / 5) (Some (0, 0, 0))].
              right_fell first \<and> t_now (left_click (7 / 5)) - t_now first \<le> 0.5))"
    by (simp add: left_click_def plain_tick_def)
  have "detect_double_click_button None 0 rest_manager ?ticks = Return True"
    using double_click_same_button [where timeout_s = None and start_time = 0
        and self = rest_manager and ticks = ?ticks
        and before = "[left_click 1, plain_tick (6 / 5) (Some (0, 0, 0))]"
        and second = "left_click (7 / 5)" and later = "[]",
        THEN conjunct2, THEN conjunct2, THEN conjunct2, THEN conjunct2, THEN conjunct2,
        THEN conjunct2] ok mono split pair
    by blast
  moreover have "detect_double_click_button None 0 rest_manager
      [left_click 1, right_click (11 / 10), plain_tick 2 (Some (0, 0, 0))] = Running"
    by (simp add: detect_double_click_button_def detect_double_click_button_tick_def
        left_click_def right_click_def plain_tick_def update_def second_within_def
        DOUBLE_CLICK_WINDOW_def timed_out_def Let_def)
  moreover have "detect_double_click_button None 0 rest_manager
      [right_click 1, right_click (8 / 5), right_click 2] = Return True"
    by (simp add: detect_double_click_button_def detect_double_click_button_tick_def
        left_click_def right_click_def plain_tick_def update_def second_within_def
        DOUBLE_CLICK_WINDOW_def timed_out_def Let_def)
  ultimately show ?thesis by simp
qed

section \<open>Navigating a list of choices\<close>

lemma nav_tick:
  assumes "update self tk = Inr self'"
  shows "navigate_choice_tick choices timeout_s start_time (self, i, last_countdown, shown) tk =
     (let i' = moved (length choices) tk i;
          remaining = py_int (timeout_s - (t_countdown tk - start_time));
          shown' = shown @ pressed_calls choices timeout_s start_time tk i
      in if encoder_fell tk then Done (i', shown')
         else if t_timeout tk - start_time > timeout_s
         then Done (- 1, shown' @ countdown_calls choices timeout_s start_time tk i' last_countdown)
         else Continue (self', i',
                (if of_int remaining < last_countdown then of_int remaining else last_countdown),
                shown' @ countdown_calls choices timeout_s start_time tk i' last_countdown))"
  by (simp add: navigate_choice_tick_def press_def Let_def assms moved_def pressed_calls_def
      countdown_calls_def)

lemma moved_range:
  assumes "0 < n" "0 \<le> i" "i < int n"
  shows "0 \<le> moved n tk i \<and> moved n tk i < int n"
  using assms by (simp add: moved_def Let_def)

lemma step_changes:
  fixes i :: int
  assumes "2 \<le> n" "0 \<le> i" "i < n"
  shows "(i - 1) mod n \<noteq> i" and "(i + 1) mod n \<noteq> i"
proof -
  show "(i - 1) mod n \<noteq> i"
  proof (cases "i = 0")
    case True
    then have "(i - 1) mod n = n - 1"
      using assms by (simp add: zmod_minus1)
    with True assms show ?thesis by simp
  next
    case False
    with assms have "(i - 1) mod n = i - 1" by simp
    then show ?thesis by simp
  qed
  show "(i + 1) mod n \<noteq> i"
  proof (cases "i + 1 = n")
    case True
    with assms show ?thesis by simp
  next
    case False
    with assms have "(i + 1) mod n = i + 1" by simp
    then show ?thesis by simp
  qed
qed


lemma nav_tick_Fail:
  "update self tk = Inl e \<Longrightarrow>
     navigate_choice_tick choices timeout_s start_time (self, i, last_countdown, shown) tk = Fail e"
  by (simp add: navigate_choice_tick_def)

lemma nav_loop_state:
  "loop_state (navigate_choice_tick choices timeout_s start_time) (self, i, lc, shown) pre
       = Some (self', i', lc', shown') \<Longrightarrow>
     i' = foldl (\<lambda>i tk. moved (length choices) tk i) i pre
     \<and> (\<forall>p\<in>set pre. \<not> encoder_fell p \<and> \<not> t_timeout p - start_time > timeout_s)"
proof (induction pre arbitrary: self i lc shown)
  case Nil
  then show ?case by simp
next
  case (Cons tk tks)
  let ?body = "navigate_choice_tick choices timeout_s start_time"
  from Cons.prems obtain s1 where c: "?body (self, i, lc, shown) tk = Continue s1"
    and l: "loop_state ?body s1 tks = Some (self', i', lc', shown')"
    by (auto split: step.splits)
  obtain self1 i1 lc1 shown1 where s1: "s1 = (self1, i1, lc1, shown1)" by (cases s1) auto
  obtain self2 where u: "update self tk = Inr self2"
    using c by (cases "update self tk") (simp_all add: nav_tick_Fail)
  from c [unfolded nav_tick [OF u] s1]
  have "i1 = moved (length choices) tk i" "\<not> encoder_fell tk" "\<not> t_timeout tk - start_time > timeout_s"
    by (simp_all add: Let_def split: if_splits)
  with Cons.IH [OF l [unfolded s1]] show ?case by simp
qed

lemma nav_quiet_state:
  assumes "\<forall>p\<in>set pre. acceleration p \<noteq> None \<and> \<not> encoder_fell p
             \<and> \<not> t_timeout p - start_time > timeout_s"
  shows "\<exists>self' lc' shown'.
           loop_state (navigate_choice_tick choices timeout_s start_time) (self, i, lc, shown) pre
             = Some (self', foldl (\<lambda>i tk. moved (length choices) tk i) i pre, lc', shown')"
  using assms
proof (induction pre arbitrary: self i lc shown)
  case Nil
  show ?case by simp
next
  case (Cons tk tks)
  from Cons.prems obtain self1 where u: "update self tk = Inr self1"
    by (auto simp: update_def split: option.splits)
  from Cons.prems have q: "\<not> encoder_fell tk" "\<not> t_timeout tk - start_time > timeout_s"
    by simp_all
  obtain lc1 shown1 where
    c: "navigate_choice_tick choices timeout_s start_time (self, i, lc, shown) tk
          = Continue (self1, moved (length choices) tk i, lc1, shown1)"
    using q by (simp add: nav_tick [OF u] Let_def)
  from Cons.IH [of self1 "moved (length choices) tk i" lc1 shown1] Cons.prems
  obtain self' lc' shown' where
    "loop_state (navigate_choice_tick choices timeout_s start_time)
       (self1, moved (length choices) tk i, lc1, shown1) tks
     = Some (self', foldl (\<lambda>i tk. moved (length choices) tk i) (moved (length choices) tk i) tks,
             lc', shown')"
    by auto
  with c show ?case by simp
qed

lemma nav_Return:
  assumes "navigate_choice choices timeout_s start_time self ticks = Return (r, shown)"
  shows "\<exists>pre tk post. ticks = pre @ tk # post
           \<and> (\<forall>p\<in>set pre. \<not> encoder_fell p \<and> \<not> t_timeout p - start_time > timeout_s)
           \<and> (if encoder_fell tk then r = index_after (length choices) (pre @ [tk])
               else t_timeout tk - start_time > timeout_s \<and> r = - 1)"
proof -
  let ?body = "navigate_choice_tick choices timeout_s start_time"
  from assms obtain c cs where ch: "choices = c # cs"
    by (cases choices) (simp_all add: navigate_choice_def)
  with assms have "run_loop ?body (self, 0, timeout_s, [(c, timeout_s)]) ticks = Return (r, shown)"
    by (simp add: navigate_choice_def)
  then obtain pre tk post s' where t: "ticks = pre @ tk # post"
    and l: "loop_state ?body (self, 0, timeout_s, [(c, timeout_s)]) pre = Some s'"
    and d: "?body s' tk = Done (r, shown)"
    by (blast dest: run_loop_Return)
  obtain self1 i1 lc1 shown1 where s': "s' = (self1, i1, lc1, shown1)" by (cases s') auto
  from nav_loop_state [OF l [unfolded s']]
  have i1: "i1 = index_after (length choices) pre"
    and quiet: "\<forall>p\<in>set pre. \<not> encoder_fell p \<and> \<not> t_timeout p - start_time > timeout_s"
    by (simp_all add: index_after_def)
  obtain self2 where u: "update self1 tk = Inr self2"
    using d by (cases "update self1 tk") (simp_all add: s' nav_tick_Fail)
  from d [unfolded s' nav_tick [OF u]] i1
  have "if encoder_fell tk then r = index_after (length choices) (pre @ [tk])
        else t_timeout tk - start_time > timeout_s \<and> r = - 1"
    by (auto simp: Let_def index_after_def split: if_splits)
  with t quiet show ?thesis by blast
qed

lemma nav_returns:
  assumes "choices \<noteq> []"
    and "\<forall>p\<in>set pre. acceleration p \<noteq> None \<and> \<not> encoder_fell p
             \<and> \<not> t_timeout p - start_time > timeout_s"
    and "acceleration tk \<noteq> None"
    and "encoder_fell tk \<or> t_timeout tk - start_time > timeout_s"
  shows "\<exists>shown. navigate_choice choices timeout_s start_time self (pre @ tk # post)
           = Return (if encoder_fell tk then index_after (length choices) (pre @ [tk]) else - 1, shown)"
proof -
  let ?body = "navigate_choice_tick choices timeout_s start_time"
  from assms(1) obtain c cs where ch: "choices = c # cs" by (cases choices) auto
  from nav_quiet_state [OF assms(2), of choices self 0 timeout_s "[(c, timeout_s)]"]
  obtain self1 lc1 shown1 where
    l: "loop_state ?body (self, 0, timeout_s, [(c, timeout_s)]) pre
          = Some (self1, index_after (length choices) pre, lc1, shown1)"
    by (auto simp: index_after_def)
  from assms(3) obtain self2 where u: "update self1 tk = Inr self2"
    by (auto simp: update_def split: option.splits)
  have "\<exists>shown. ?body (self1, index_after (length choices) pre, lc1, shown1) tk
       = Done (if encoder_fell tk then index_after (length choices) (pre @ [tk]) else - 1, shown)"
  proof (cases "encoder_fell tk")
    case True
    then show ?thesis
      by (simp add: nav_tick [OF u] Let_def index_after_def)
  next
    case False
    with assms(4) have "t_timeout tk - start_time > timeout_s" by simp
    with False show ?thesis
      by (simp add: nav_tick [OF u] Let_def index_after_def)
  qed
  then obtain shown where
    "?body (self1, index_after (length choices) pre, lc1, shown1) tk
       = Done (if encoder_fell tk then index_after (length choices) (pre @ [tk]) else - 1, shown)"
    by blast
  with l have "run_loop ?body (self, 0, timeout_s, [(c, timeout_s)]) (pre @ tk # post)
       = Return (if encoder_fell tk then index_after (length choices) (pre @ [tk]) else - 1, shown)"
    by (simp add: run_loop_append)
  then show ?thesis
    by (auto simp: navigate_choice_def ch)
qed


text \<open>
  C6 (amended). \<open>navigate_choice\<close> raises on the empty list; otherwise it starts with the
  index \<open>0\<close>, the last countdown \<open>timeout_s\<close> and one display call. On each tick a left
  \<open>fell\<close> edge takes the index to \<open>(i - 1) mod n\<close> and a right one to \<open>(i + 1) mod n\<close>,
  each followed by a display call; an encoder \<open>fell\<close> edge then returns the index;
  otherwise the countdown check makes a display call exactly when the integer countdown
  is below the last one it has shown, and the call returns \<open>-1\<close> when the timeout check
  finds more than \<open>timeout_s\<close> elapsed. No press and no decrease means no display call.
  The index stays within the list, and with at least two choices every press changes
  it. The call returns the index reached by the presses up to the first tick with an
  encoder edge, or \<open>-1\<close> at the first tick whose timeout check fires, whichever comes
  first.
\<close>

theorem navigate_choice_behaviour:
  "navigate_choice [] timeout_s start_time self ticks = Raise IndexError
   \<and> navigate_choice (choice # rest) timeout_s start_time self ticks
       = run_loop (navigate_choice_tick (choice # rest) timeout_s start_time)
           (self, 0, timeout_s, [(choice, timeout_s)]) ticks
   \<and> (update self tk = Inr self' \<longrightarrow>
        navigate_choice_tick choices timeout_s start_time (self, i, last_countdown, shown) tk =
          (let i' = moved (length choices) tk i;
               remaining = py_int (timeout_s - (t_countdown tk - start_time));
               shown' = shown @ pressed_calls choices timeout_s start_time tk i
           in if encoder_fell tk then Done (i', shown')
              else if t_timeout tk - start_time > timeout_s
              then Done (- 1, shown' @ countdown_calls choices timeout_s start_time tk i' last_countdown)
              else Continue (self', i',
                     (if of_int remaining < last_countdown then of_int remaining else last_countdown),
                     shown' @ countdown_calls choices timeout_s start_time tk i' last_countdown)))
   \<and> (\<not> left_fell tk \<and> \<not> right_fell tk \<longrightarrow>
        moved (length choices) tk i = i \<and> pressed_calls choices timeout_s start_time tk i = [])
   \<and> (\<not> of_int (py_int (timeout_s - (t_countdown tk - start_time))) < last_countdown \<longrightarrow>
        countdown_calls choices timeout_s start_time tk i last_countdown = [])
   \<and> (0 \<le> i \<and> i < int (length choices) \<longrightarrow>
        0 \<le> moved (length choices) tk i \<and> moved (length choices) tk i < int (length choices))
   \<and> (2 \<le> length choices \<and> 0 \<le> i \<and> i < int (length choices) \<longrightarrow>
        (i - 1) mod int (length choices) \<noteq> i \<and> (i + 1) mod int (length choices) \<noteq> i)
   \<and> (navigate_choice choices timeout_s start_time self ticks = Return (r, shown) \<longrightarrow>
        (\<exists>pre tk post. ticks = pre @ tk # post
           \<and> (\<forall>p\<in>set pre. \<not> encoder_fell p \<and> \<not> t_timeout p - start_time > timeout_s)
           \<and> (if encoder_fell tk then r = index_after (length choices) (pre @ [tk])
               else t_timeout tk - start_time > timeout_s \<and> r = - 1)))
   \<and> (choices \<noteq> []
        \<and> (\<forall>p\<in>set quiet. acceleration p \<noteq> None \<and> \<not> encoder_fell p
               \<and> \<not> t_timeout p - start_time > timeout_s)
        \<and> acceleration final \<noteq> None
        \<and> (encoder_fell final \<or> t_timeout final - start_time > timeout_s) \<longrightarrow>
        (\<exists>shown. navigate_choice choices timeout_s start_time self (quiet @ final # later)
           = Return (if encoder_fell final then index_after (length choices) (quiet @ [final])
                     else - 1, shown)))"
proof (intro conjI impI)
  show "navigate_choice [] timeout_s start_time self ticks = Raise IndexError"
    by (simp add: navigate_choice_def)
  show "navigate_choice (choice # rest) timeout_s start_time self ticks
       = run_loop (navigate_choice_tick (choice # rest) timeout_s start_time)
           (self, 0, timeout_s, [(choice, timeout_s)]) ticks"
    by (simp add: navigate_choice_def)
next
  assume "update self tk = Inr self'"
  then show "navigate_choice_tick choices timeout_s start_time (self, i, last_countdown, shown) tk =
          (let i' = moved (length choices) tk i;
               remaining = py_int (timeout_s - (t_countdown tk - start_time));
               shown' = shown @ pressed_calls choices timeout_s start_time tk i
           in if encoder_fell tk then Done (i', shown')
              else if t_timeout tk - start_time > timeout_s
              then Done (- 1, shown' @ countdown_calls choices timeout_s start_time tk i' last_countdown)
              else Continue (self', i',
                     (if of_int remaining < last_countdown then of_int remaining else last_countdown),
                     shown' @ countdown_calls choices timeout_s start_time tk i' last_countdown))"
    by (rule nav_tick)
next
  assume "\<not> left_fell tk \<and> \<not> right_fell tk"
  then show "moved (length choices) tk i = i"
    and "pressed_calls choices timeout_s start_time tk i = []"
    by (simp_all add: moved_def pressed_calls_def)
next
  assume "\<not> of_int (py_int (timeout_s - (t_countdown tk - start_time))) < last_countdown"
  then show "countdown_calls choices timeout_s start_time tk i last_countdown = []"
    by (simp add: countdown_calls_def)
next
  assume a: "0 \<le> i \<and> i < int (length choices)"
  then have "0 < length choices" by auto
  with a show "0 \<le> moved (length choices) tk i"
    and "moved (length choices) tk i < int (length choices)"
    using moved_range [of "length choices" i tk] by simp_all
next
  assume a: "2 \<le> length choices \<and> 0 \<le> i \<and> i < int (length choices)"
  then show "(i - 1) mod int (length choices) \<noteq> i"
    and "(i + 1) mod int (length choices) \<noteq> i"
    using step_changes [of "int (length choices)" i] by simp_all
next
  assume "navigate_choice choices timeout_s start_time self ticks = Return (r, shown)"
  then show "\<exists>pre tk post. ticks = pre @ tk # post
           \<and> (\<forall>p\<in>set pre. \<not> encoder_fell p \<and> \<not> t_timeout p - start_time > timeout_s)
           \<and> (if encoder_fell tk then r = index_after (length choices) (pre @ [tk])
               else t_timeout tk - start_time > timeout_s \<and> r = - 1)"
    by (rule nav_Return)
next
  assume "choices \<noteq> []
        \<and> (\<forall>p\<in>set quiet. acceleration p \<noteq> None \<and> \<not> encoder_fell p
               \<and> \<not> t_timeout p - start_time > timeout_s)
        \<and> acceleration final \<noteq> None
        \<and> (encoder_fell final \<or> t_timeout final - start_time > timeout_s)"
  then have 1: "choices \<noteq> []"
    and 2: "\<forall>p\<in>set quiet. acceleration p \<noteq> None \<and> \<not> encoder_fell p
               \<and> \<not> t_timeout p - start_time > timeout_s"
    and 3: "acceleration final \<noteq> None"
    and 4: "encoder_fell final \<or> t_timeout final - start_time > timeout_s"
    by blast+
  show "\<exists>shown. navigate_choice choices timeout_s start_time self (quiet @ final # later)
           = Return (if encoder_fell final then index_after (length choices) (quiet @ [final])
                     else - 1, shown)"
    by (rule nav_returns [OF 1 2 3 4])
qed

theorem navigate_choice_behaviour_witness:
  "index_after 3 [right_click 1, left_click 2, encoder_press 3] = 0
   \<and> index_after 3 [right_click 1] = 1
   \<and> index_after 3 [left_click 1] = 2
   \<and> (\<exists>shown. navigate_choice [''A'', ''B'', ''C''] 5 0 rest_manager
         [right_click 1, left_click 2, encoder_press 3] = Return (0, shown))
   \<and> (\<exists>shown. navigate_choice [''A'', ''B'', ''C''] 5 0 rest_manager
         [plain_tick 1 (Some (0, 0, 0)), plain_tick 6 (Some (0, 0, 0))] = Return (- 1, shown))"
proof -
  have i: "index_after 3 [right_click 1, left_click 2, encoder_press 3] = 0"
    "index_after 3 [right_click 1] = 1" "index_after 3 [left_click 1] = 2"
    by (simp_all add: index_after_def moved_def right_click_def left_click_def encoder_press_def
        plain_tick_def)
  have q: "\<forall>p\<in>set [right_click 1, left_click 2]. acceleration p \<noteq> None \<and> \<not> encoder_fell p
               \<and> \<not> t_timeout p - 0 > 5"
    by (simp add: right_click_def left_click_def plain_tick_def)
  have f: "acceleration (encoder_press 3) \<noteq> None"
    "encoder_fell (encoder_press 3) \<or> t_timeout (encoder_press 3) - 0 > 5"
    by (simp_all add: encoder_press_def plain_tick_def)
  have hyp: "[''A'', ''B'', ''C''] \<noteq> []
        \<and> (\<forall>p\<in>set [right_click 1, left_click 2]. acceleration p \<noteq> None \<and> \<not> encoder_fell p
               \<and> \<not> t_timeout p - 0 > 5)
        \<and> acceleration (encoder_press 3) \<noteq> None
        \<and> (encoder_fell (encoder_press 3) \<or> t_timeout (encoder_press 3) - 0 > 5)"
    using q f by simp
  have y: "(if encoder_fell (encoder_press 3)
            then index_after (length [''A'', ''B'', ''C''])
                   ([right_click 1, left_click 2] @ [encoder_press 3])
            else - 1) = 0"
    by (simp add: index_after_def moved_def right_click_def left_click_def encoder_press_def
        plain_tick_def)
  have "\<exists>shown. navigate_choice [''A'', ''B'', ''C''] 5 0 rest_manager
         ([right_click 1, left_click 2] @ encoder_press 3 # [])
       = Return (if encoder_fell (encoder_press 3)
                 then index_after (length [''A'', ''B'', ''C''])
                        ([right_click 1, left_click 2] @ [encoder_press 3])
                 else - 1, shown)"
    by (rule navigate_choice_behaviour [where choices = "[''A'', ''B'', ''C'']" and timeout_s = 5
        and start_time = 0 and self = rest_manager and quiet = "[right_click 1, left_click 2]"
        and final = "encoder_press 3" and later = "[]",
        THEN conjunct2, THEN conjunct2, THEN conjunct2, THEN conjunct2, THEN conjunct2,
        THEN conjunct2, THEN conjunct2, THEN conjunct2, THEN mp, OF hyp])
  then have "\<exists>shown. navigate_choice [''A'', ''B'', ''C''] 5 0 rest_manager
         [right_click 1, left_click 2, encoder_press 3] = Return (0, shown)"
    unfolding y by simp
  moreover have "\<exists>shown. navigate_choice [''A'', ''B'', ''C''] 5 0 rest_manager
         [plain_tick 1 (Some (0, 0, 0)), plain_tick 6 (Some (0, 0, 0))] = Return (- 1, shown)"
    by (simp add: navigate_choice_def navigate_choice_tick_def press_def plain_tick_def update_def
        Let_def)
  ultimately show ?thesis using i by simp
qed

text \<open>
  C6, as stated, fails for a single choice: the press of the left button on the
  second tick makes a display call, the third of the call, although the index is still
  \<open>0\<close> and the countdown is still \<open>4\<close>.
\<close>

theorem navigate_choice_single_counterexample:
  "navigate_choice [''A''] 5 0 rest_manager
      [plain_tick (1 / 5) (Some (0, 0, 0)), left_click (1 / 2), encoder_press (3 / 5)]
     = Return (0, [(''A'', 5), (''A'', 4), (''A'', 4)])"
  by (simp add: navigate_choice_def navigate_choice_tick_def press_def plain_tick_def update_def
      left_click_def encoder_press_def py_int_def Let_def)

end
